theory Spec2Isabelle
  imports Main
begin

section \<open>The Dashboard component of routes/_layout/index.tsx\<close>

text \<open>
  The component is a React function component whose handlers are asynchronous: every
  \<^verbatim>\<open>await\<close> suspends the handler until the awaited remote call settles, and every
  \<^verbatim>\<open>setInterval\<close> callback is started by the timer of the JavaScript runtime. The model is
  an event-driven state machine. Its state holds the React state of the component, the
  three interval refs, and the part of the runtime the handlers depend on: the active
  interval timers and the remote calls that are awaited and not yet settled. An event is
  one turn of the event loop: a user action, the firing of a timer, or the settling of an
  awaited call. The code that runs between two \<^verbatim>\<open>await\<close>s is one function of the model.

  The line numbers refer to the first revision of the file (lines 1 to 366). The second
  revision kept in the same file has the same handlers line for line, apart from the names
  of the client services, two message texts, a shape test on the download response, and
  the upload box being rendered in the idle stage only.
\<close>

subsection \<open>Strings\<close>

text \<open>
  A JavaScript string is a sequence of UTF-16 code units, and the empty string is the
  only falsy one. The message literals of the source are Chinese; each is written out
  as the list of its code units.
\<close>

type_synonym jsstring = "nat list"

definition ascii :: "string \<Rightarrow> jsstring" where
  "ascii cs = map of_char cs"

definition SUCCESS :: jsstring where
  "SUCCESS = ascii ''SUCCESS''"

definition FAILURE :: jsstring where
  "FAILURE = ascii ''FAILURE''"

definition PENDING :: jsstring where
  "PENDING = ascii ''PENDING''"

definition application_pdf :: jsstring where
  "application_pdf = ascii ''application/pdf''"

text \<open>Line 85, the two literals of the rejected file selection.\<close>

definition msg_select_valid_pdf :: jsstring where
  "msg_select_valid_pdf =
     [0x8ACB, 0x9078, 0x64C7, 0x6709, 0x6548, 0x7684, 0x0020, 0x0050, 0x0044, 0x0046,
      0x0020, 0x6A94, 0x6848]"

definition err_wrong_format :: jsstring where
  "err_wrong_format = [0x6A94, 0x6848, 0x683C, 0x5F0F, 0x4E0D, 0x6B63, 0x78BA]"

text \<open>Lines 91, 100, 110 (the prefix of the template literal), 113 and 122.\<close>

definition msg_preparing :: jsstring where
  "msg_preparing = [0x6B63, 0x5728, 0x6E96, 0x5099, 0x4E0A, 0x50B3, 0x002E, 0x002E, 0x002E]"

definition msg_uploading :: jsstring where
  "msg_uploading =
     [0x6A94, 0x6848, 0x6B63, 0x5728, 0x4E0A, 0x50B3, 0x4E2D, 0x002E, 0x002E, 0x002E]"

definition err_upload_failed :: "jsstring \<Rightarrow> jsstring" where
  "err_upload_failed statusText =
     [0x4E0A, 0x50B3, 0x5931, 0x6557, 0x003A, 0x0020] @ statusText"

definition msg_queued :: jsstring where
  "msg_queued =
     [0x4E0A, 0x50B3, 0x5B8C, 0x6210, 0xFF0C, 0x6B63, 0x5728, 0x6392, 0x5165, 0x8655,
      0x7406, 0x4F47, 0x5217, 0x002E, 0x002E, 0x002E]"

definition msg_task_started :: jsstring where
  "msg_task_started =
     [0x8655, 0x7406, 0x4EFB, 0x52D9, 0x5DF2, 0x555F, 0x52D5, 0xFF0C, 0x8ACB, 0x7A0D,
      0x5019, 0x002E, 0x002E, 0x002E]"

text \<open>Lines 132, 139, 150, 160, 169, 181 (two literals), 185 (template) and 191.\<close>

definition msg_recognised :: jsstring where
  "msg_recognised =
     [0x8FA8, 0x8B58, 0x5B8C, 0x6210, 0xFF0C, 0x67E5, 0x8A62, 0x4F5C, 0x696D, 0x72C0,
      0x614B, 0x4E2D, 0x002E, 0x002E, 0x002E]"

definition err_no_operation_name :: jsstring where
  "err_no_operation_name =
     [0x4EFB, 0x52D9, 0x7D50, 0x679C, 0x4E2D, 0x6C92, 0x6709, 0x0020] @ ascii ''operation_name''"

definition msg_operation_done :: jsstring where
  "msg_operation_done =
     [0x4F5C, 0x696D, 0x5B8C, 0x6210, 0xFF01, 0x53EF, 0x9032, 0x884C, 0x5F8C, 0x7E8C,
      0x8F49, 0x63DB, 0x3002]"

definition msg_convert_started :: jsstring where
  "msg_convert_started =
     [0x8F49, 0x63DB, 0x4EFB, 0x52D9, 0x5DF2, 0x555F, 0x52D5, 0xFF0C, 0x8ACB, 0x7A0D,
      0x5019, 0x002E, 0x002E, 0x002E]"

definition msg_convert_done :: jsstring where
  "msg_convert_done = [0x8F49, 0x63DB, 0x5B8C, 0x6210, 0xFF01]"

definition msg_convert_failed :: jsstring where
  "msg_convert_failed = [0x8F49, 0x63DB, 0x5931, 0x6557]"

definition err_convert_failed :: jsstring where
  "err_convert_failed =
     [0x8F49, 0x63DB, 0x904E, 0x7A0B, 0x4E2D, 0x767C, 0x751F, 0x932F, 0x8AA4]"

definition msg_converting :: "jsstring \<Rightarrow> jsstring" where
  "msg_converting status =
     [0x8F49, 0x63DB, 0x4E2D, 0x002E, 0x002E, 0x002E, 0x0020, 0x0028, 0x72C0, 0x614B,
      0x003A, 0x0020] @ status @ ascii '')''"

definition msg_operation_pending :: jsstring where
  "msg_operation_pending =
     [0x4F5C, 0x696D, 0x8655, 0x7406, 0x4E2D, 0xFF0C, 0x8ACB, 0x7A0D, 0x5019, 0x002E,
      0x002E, 0x002E]"

text \<open>Lines 197, 205 (two literals), 207 (template), 211, 215, 223 and 240.\<close>

definition msg_operation_query_failed :: jsstring where
  "msg_operation_query_failed =
     [0x67E5, 0x8A62, 0x4F5C, 0x696D, 0x72C0, 0x614B, 0x5931, 0x6557]"

definition msg_processing_failed :: jsstring where
  "msg_processing_failed = [0x8655, 0x7406, 0x5931, 0x6557]"

definition err_task_failed :: jsstring where
  "err_task_failed = [0x4EFB, 0x52D9, 0x57F7, 0x884C, 0x5931, 0x6557]"

definition msg_processing :: "jsstring \<Rightarrow> jsstring" where
  "msg_processing status =
     [0x8655, 0x7406, 0x4E2D, 0x002E, 0x002E, 0x002E, 0x0020, 0x0028, 0x72C0, 0x614B,
      0x003A, 0x0020] @ status @ ascii '')''"

definition msg_status_check_failed :: jsstring where
  "msg_status_check_failed =
     [0x6AA2, 0x67E5, 0x4EFB, 0x52D9, 0x72C0, 0x614B, 0x5931, 0x6557]"

definition msg_error_occurred :: jsstring where
  "msg_error_occurred = [0x767C, 0x751F, 0x932F, 0x8AA4]"

definition err_no_download_url :: jsstring where
  "err_no_download_url =
     [0x4E0B, 0x8F09, 0x0020, 0x0055, 0x0052, 0x004C, 0x0020, 0x4E0D, 0x5B58, 0x5728]"

definition msg_download_failed :: jsstring where
  "msg_download_failed = [0x4E0B, 0x8F09, 0x5931, 0x6557]"

subsection \<open>The state of the component\<close>

text \<open>The union type of \<^verbatim>\<open>UploadStatus.stage\<close> (lines 30 to 36).\<close>

datatype stage = Idle | Uploading | Processing | Converting | Completed | Error

text \<open>The interface \<^verbatim>\<open>UploadStatus\<close> (lines 29 to 40); an absent \<^verbatim>\<open>error\<close> is \<open>None\<close>.\<close>

record UploadStatus =
  stage :: stage
  message :: jsstring
  progress :: int
  error :: "jsstring option"

text \<open>The two fields of the selected DOM file that the handlers read.\<close>

record File =
  file_name :: jsstring
  file_type :: jsstring

text \<open>
  The three closures handed to \<^verbatim>\<open>setInterval\<close> (lines 125, 142 and 162), each with the
  variables it captures: the task id and the file key, the operation name and the file
  key, the id of the convert task.
\<close>

datatype interval_callback =
  StatusCheck jsstring jsstring
  | OperationCheck jsstring jsstring
  | ConvertCheck jsstring

text \<open>
  The awaited remote calls, in the order of lines 94, 103, 116, 127, 135, 145, 153, 164,
  172 and 225, each with the variables the code after the \<^verbatim>\<open>await\<close> still needs: the
  file; the file key and the file name (twice); the task id and the file key (twice); the
  operation name and the file key; the file key; the id of the convert task (twice); the
  stored download path.
\<close>

datatype request =
  UploadDocument File
  | GcsPut jsstring jsstring
  | ProcessDocument jsstring jsstring
  | GetTaskStatus jsstring jsstring
  | GetTaskResult jsstring jsstring
  | GetOperationStatus jsstring jsstring
  | ConvertDocument jsstring
  | GetConvertStatus jsstring
  | GetConvertResult jsstring
  | DownloadDocument jsstring

text \<open>
  The responses of the collaborators, with the fields the handlers destructure:
  \<^verbatim>\<open>signed_url\<close>, \<^verbatim>\<open>file_key\<close> and \<^verbatim>\<open>file_name\<close> of the upload target; \<^verbatim>\<open>ok\<close> and
  \<^verbatim>\<open>statusText\<close> of the transfer; \<^verbatim>\<open>task_id\<close>; \<^verbatim>\<open>status\<close>; \<^verbatim>\<open>operation_name\<close> and
  \<^verbatim>\<open>gcs_download_path\<close> of a task result, both optional; \<^verbatim>\<open>done\<close>; \<^verbatim>\<open>signed_url\<close> and
  \<^verbatim>\<open>file_name\<close> of the download target. A call settles by resolving with a response or
  by rejecting with an \<^verbatim>\<open>Error\<close>, of which the handlers read the message.
\<close>

datatype response =
  UploadResponse jsstring jsstring jsstring
  | FetchResponse bool jsstring
  | TaskIdResponse jsstring
  | TaskStatusResponse jsstring
  | TaskResultResponse "jsstring option" "jsstring option"
  | OperationResponse bool
  | DownloadResponse jsstring jsstring

datatype outcome = Resolved response | Rejected jsstring

text \<open>
  The state: the three \<^verbatim>\<open>useState\<close> cells (lines 44 to 50), the three interval refs
  (lines 52 to 54), and the runtime: the active intervals with their handles, the next
  handle \<^verbatim>\<open>setInterval\<close> returns, and the awaited calls in the order they were issued.
\<close>

record Dashboard =
  uploadStatus :: UploadStatus
  downloadUrl :: jsstring
  showDownload :: bool
  statusCheckInterval :: "nat option"
  operationCheckInterval :: "nat option"
  convertCheckInterval :: "nat option"
  intervals :: "(nat \<times> interval_callback) list"
  next_handle :: nat
  inflight :: "request list"

text \<open>
  The state at mount. A handle is a positive number in a browser and an object in Node:
  it is truthy, and the test \<^verbatim>\<open>if (ref.current)\<close> of \<^verbatim>\<open>clearIntervals\<close> is the test for
  null.
\<close>

definition init :: Dashboard where
  "init = \<lparr>uploadStatus = \<lparr>stage = Idle, message = [], progress = 0, error = None\<rparr>,
            downloadUrl = [], showDownload = False,
            statusCheckInterval = None, operationCheckInterval = None,
            convertCheckInterval = None,
            intervals = [], next_handle = 1, inflight = []\<rparr>"

subsection \<open>The runtime: timers and awaited calls\<close>

text \<open>\<^verbatim>\<open>setInterval\<close> activates the callback under a fresh handle and returns the handle.\<close>

definition setInterval :: "interval_callback \<Rightarrow> Dashboard \<Rightarrow> nat \<times> Dashboard" where
  "setInterval cb s =
     (next_handle s,
      s\<lparr>intervals := intervals s @ [(next_handle s, cb)], next_handle := Suc (next_handle s)\<rparr>)"

text \<open>\<^verbatim>\<open>clearInterval(ref.current!)\<close>: a null handle or a handle that is not active is ignored.\<close>

definition clearInterval :: "nat option \<Rightarrow> Dashboard \<Rightarrow> Dashboard" where
  "clearInterval h s = s\<lparr>intervals := filter (\<lambda>(i, cb). Some i \<noteq> h) (intervals s)\<rparr>"

text \<open>An \<^verbatim>\<open>await\<close> of a remote call suspends the handler: the call is in flight.\<close>

definition await :: "request \<Rightarrow> Dashboard \<Rightarrow> Dashboard" where
  "await r s = s\<lparr>inflight := inflight s @ [r]\<rparr>"

text \<open>A list without its element at a position.\<close>

definition drop_nth :: "nat \<Rightarrow> 'a list \<Rightarrow> 'a list" where
  "drop_nth i xs = take i xs @ drop (Suc i) xs"

subsection \<open>The handlers\<close>

text \<open>Lines 56 to 63.\<close>

definition updateStatus ::
  "stage \<Rightarrow> jsstring \<Rightarrow> int \<Rightarrow> jsstring option \<Rightarrow> Dashboard \<Rightarrow> Dashboard" where
  "updateStatus st msg prog err s =
     s\<lparr>uploadStatus := \<lparr>stage = st, message = msg, progress = prog, error = err\<rparr>\<rparr>"

text \<open>Lines 65 to 78.\<close>

definition clearIntervals :: "Dashboard \<Rightarrow> Dashboard" where
  "clearIntervals s =
     (let s1 = (case statusCheckInterval s of None \<Rightarrow> s
                | Some h \<Rightarrow> (clearInterval (Some h) s)\<lparr>statusCheckInterval := None\<rparr>);
          s2 = (case operationCheckInterval s1 of None \<Rightarrow> s1
                | Some h \<Rightarrow> (clearInterval (Some h) s1)\<lparr>operationCheckInterval := None\<rparr>)
      in (case convertCheckInterval s2 of None \<Rightarrow> s2
          | Some h \<Rightarrow> (clearInterval (Some h) s2)\<lparr>convertCheckInterval := None\<rparr>))"

text \<open>Lines 89 to 94: \<^verbatim>\<open>handleFileUpload\<close> up to its first \<^verbatim>\<open>await\<close>.\<close>

definition handleFileUpload :: "File \<Rightarrow> Dashboard \<Rightarrow> Dashboard" where
  "handleFileUpload file s =
     await (UploadDocument file) (updateStatus Uploading msg_preparing 10 None s)"

text \<open>Lines 214 to 217: the \<^verbatim>\<open>catch\<close> of \<^verbatim>\<open>handleFileUpload\<close>.\<close>

definition handleFileUpload_catch :: "jsstring \<Rightarrow> Dashboard \<Rightarrow> Dashboard" where
  "handleFileUpload_catch m s =
     clearIntervals (updateStatus Error msg_error_occurred 0 (Some m) s)"

text \<open>Lines 99 to 103.\<close>

fun after_uploadDocument :: "File \<Rightarrow> outcome \<Rightarrow> Dashboard \<Rightarrow> Dashboard" where
  "after_uploadDocument file (Resolved (UploadResponse signed_url file_key fname)) s =
     await (GcsPut file_key fname) (updateStatus Uploading msg_uploading 30 None s)"
| "after_uploadDocument file (Rejected m) s = handleFileUpload_catch m s"
| "after_uploadDocument file _ s = s"

text \<open>Lines 109 to 116.\<close>

fun after_gcsPut :: "jsstring \<Rightarrow> jsstring \<Rightarrow> outcome \<Rightarrow> Dashboard \<Rightarrow> Dashboard" where
  "after_gcsPut file_key fname (Resolved (FetchResponse ok statusText)) s =
     (if \<not> ok then handleFileUpload_catch (err_upload_failed statusText) s
      else await (ProcessDocument file_key fname)
             (updateStatus Processing msg_queued 50 None s))"
| "after_gcsPut file_key fname (Rejected m) s = handleFileUpload_catch m s"
| "after_gcsPut file_key fname _ s = s"

text \<open>Lines 121 to 125 and 213: the status interval is started and its handle stored.\<close>

fun after_processDocument :: "jsstring \<Rightarrow> jsstring \<Rightarrow> outcome \<Rightarrow> Dashboard \<Rightarrow> Dashboard" where
  "after_processDocument file_key fname (Resolved (TaskIdResponse task_id)) s =
     (let (h, s1) = setInterval (StatusCheck task_id file_key)
                      (updateStatus Processing msg_task_started 60 None s)
      in s1\<lparr>statusCheckInterval := Some h\<rparr>)"
| "after_processDocument file_key fname (Rejected m) s = handleFileUpload_catch m s"
| "after_processDocument file_key fname _ s = s"

text \<open>Lines 209 to 212: the \<^verbatim>\<open>catch\<close> of the status callback.\<close>

definition statusCheck_catch :: "jsstring \<Rightarrow> Dashboard \<Rightarrow> Dashboard" where
  "statusCheck_catch m s =
     updateStatus Error msg_status_check_failed 0 (Some m)
       (clearInterval (statusCheckInterval s) s)"

text \<open>Lines 128 to 135 and 203 to 208.\<close>

fun after_getTaskStatus :: "jsstring \<Rightarrow> jsstring \<Rightarrow> outcome \<Rightarrow> Dashboard \<Rightarrow> Dashboard" where
  "after_getTaskStatus task_id file_key (Resolved (TaskStatusResponse status)) s =
     (if status = SUCCESS then
        await (GetTaskResult task_id file_key)
          (updateStatus Processing msg_recognised 70 None
             (clearInterval (statusCheckInterval s) s))
      else if status = FAILURE then
        updateStatus Error msg_processing_failed 0 (Some err_task_failed)
          (clearInterval (statusCheckInterval s) s)
      else updateStatus Processing (msg_processing status) 65 None s)"
| "after_getTaskStatus task_id file_key (Rejected m) s = statusCheck_catch m s"
| "after_getTaskStatus task_id file_key _ s = s"

text \<open>Lines 136 to 142 and 202: a missing or empty operation name throws into the catch.\<close>

fun after_getTaskResult :: "jsstring \<Rightarrow> jsstring \<Rightarrow> outcome \<Rightarrow> Dashboard \<Rightarrow> Dashboard" where
  "after_getTaskResult task_id file_key (Resolved (TaskResultResponse operation_name path)) s =
     (case operation_name of
        None \<Rightarrow> statusCheck_catch err_no_operation_name s
      | Some operationName \<Rightarrow>
          if operationName = [] then statusCheck_catch err_no_operation_name s
          else (let (h, s1) = setInterval (OperationCheck operationName file_key) s
                in s1\<lparr>operationCheckInterval := Some h\<rparr>))"
| "after_getTaskResult task_id file_key (Rejected m) s = statusCheck_catch m s"
| "after_getTaskResult task_id file_key _ s = s"

text \<open>Lines 193 to 201: the \<^verbatim>\<open>catch\<close> of the operation callback.\<close>

definition operationCheck_catch :: "jsstring \<Rightarrow> Dashboard \<Rightarrow> Dashboard" where
  "operationCheck_catch m s =
     updateStatus Error msg_operation_query_failed 0 (Some m)
       (clearInterval (operationCheckInterval s) s)"

text \<open>Lines 146 to 153 and 190 to 192.\<close>

fun after_getOperationStatus ::
  "jsstring \<Rightarrow> jsstring \<Rightarrow> outcome \<Rightarrow> Dashboard \<Rightarrow> Dashboard" where
  "after_getOperationStatus operationName file_key (Resolved (OperationResponse done)) s =
     (if done then
        await (ConvertDocument file_key)
          (updateStatus Converting msg_operation_done 80 None
             (clearInterval (operationCheckInterval s) s))
      else updateStatus Processing msg_operation_pending 75 None s)"
| "after_getOperationStatus operationName file_key (Rejected m) s = operationCheck_catch m s"
| "after_getOperationStatus operationName file_key _ s = s"

text \<open>Lines 159 to 162 and 189: the convert interval is started and its handle stored.\<close>

fun after_convertDocument :: "jsstring \<Rightarrow> outcome \<Rightarrow> Dashboard \<Rightarrow> Dashboard" where
  "after_convertDocument file_key (Resolved (TaskIdResponse convertTaskId)) s =
     (let (h, s1) = setInterval (ConvertCheck convertTaskId)
                      (updateStatus Converting msg_convert_started 85 None s)
      in s1\<lparr>convertCheckInterval := Some h\<rparr>)"
| "after_convertDocument file_key (Rejected m) s = operationCheck_catch m s"
| "after_convertDocument file_key _ s = s"

text \<open>
  Lines 165 to 172 and 179 to 188. The convert callback has no \<^verbatim>\<open>try\<close>: a rejection
  ends the invocation as an unhandled rejection and nothing else happens.
\<close>

fun after_getConvertStatus :: "jsstring \<Rightarrow> outcome \<Rightarrow> Dashboard \<Rightarrow> Dashboard" where
  "after_getConvertStatus convertTaskId (Resolved (TaskStatusResponse status)) s =
     (if status = SUCCESS then
        await (GetConvertResult convertTaskId)
          (updateStatus Completed msg_convert_done 100 None
             (clearInterval (convertCheckInterval s) s))
      else if status = FAILURE then
        updateStatus Error msg_convert_failed 0 (Some err_convert_failed)
          (clearInterval (convertCheckInterval s) s)
      else updateStatus Converting (msg_converting status) 90 None s)"
| "after_getConvertStatus convertTaskId _ s = s"

text \<open>Lines 173 to 178.\<close>

fun after_getConvertResult :: "jsstring \<Rightarrow> outcome \<Rightarrow> Dashboard \<Rightarrow> Dashboard" where
  "after_getConvertResult convertTaskId (Resolved (TaskResultResponse operation_name path)) s =
     (case path of
        None \<Rightarrow> s
      | Some gcs_download_path \<Rightarrow>
          if gcs_download_path = [] then s
          else s\<lparr>downloadUrl := gcs_download_path, showDownload := True\<rparr>)"
| "after_getConvertResult convertTaskId _ s = s"

text \<open>Lines 220 to 225 and 239 to 241: \<^verbatim>\<open>handleDownload\<close> up to its \<^verbatim>\<open>await\<close>.\<close>

definition handleDownload :: "Dashboard \<Rightarrow> Dashboard" where
  "handleDownload s =
     (if downloadUrl s = [] then
        updateStatus Error msg_download_failed 0 (Some err_no_download_url) s
      else await (DownloadDocument (downloadUrl s)) s)"

text \<open>
  Lines 226 to 241. The browser download that follows a resolved call is not awaited and
  touches no state of the component.
\<close>

fun after_downloadDocument :: "outcome \<Rightarrow> Dashboard \<Rightarrow> Dashboard" where
  "after_downloadDocument (Rejected m) s = updateStatus Error msg_download_failed 0 (Some m) s"
| "after_downloadDocument _ s = s"

text \<open>Lines 80 to 87.\<close>

definition handleFileSelect :: "File option \<Rightarrow> Dashboard \<Rightarrow> Dashboard" where
  "handleFileSelect f s =
     (case f of
        None \<Rightarrow> updateStatus Error msg_select_valid_pdf 0 (Some err_wrong_format) s
      | Some file \<Rightarrow>
          if file_type file = application_pdf then handleFileUpload file s
          else updateStatus Error msg_select_valid_pdf 0 (Some err_wrong_format) s)"

text \<open>Lines 244 to 252; the value of the file input is outside the model.\<close>

definition resetUpload :: "Dashboard \<Rightarrow> Dashboard" where
  "resetUpload s =
     (clearIntervals s)
       \<lparr>uploadStatus := \<lparr>stage = Idle, message = [], progress = 0, error = None\<rparr>,
        showDownload := False, downloadUrl := []\<rparr>"

text \<open>Lines 347 and 358: what the render shows of the two controls.\<close>

definition download_control_shown :: "Dashboard \<Rightarrow> bool" where
  "download_control_shown s = showDownload s"

definition reset_control_shown :: "Dashboard \<Rightarrow> bool" where
  "reset_control_shown s = (showDownload s \<or> stage (uploadStatus s) = Error)"

subsection \<open>The event loop\<close>

text \<open>The first \<^verbatim>\<open>await\<close> of each interval callback: lines 127, 145 and 164.\<close>

fun fire :: "interval_callback \<Rightarrow> Dashboard \<Rightarrow> Dashboard" where
  "fire (StatusCheck task_id file_key) s = await (GetTaskStatus task_id file_key) s"
| "fire (OperationCheck operationName file_key) s =
     await (GetOperationStatus operationName file_key) s"
| "fire (ConvertCheck convertTaskId) s = await (GetConvertStatus convertTaskId) s"

text \<open>The code that runs when an awaited call settles.\<close>

fun resume :: "request \<Rightarrow> outcome \<Rightarrow> Dashboard \<Rightarrow> Dashboard" where
  "resume (UploadDocument file) out s = after_uploadDocument file out s"
| "resume (GcsPut file_key fname) out s = after_gcsPut file_key fname out s"
| "resume (ProcessDocument file_key fname) out s = after_processDocument file_key fname out s"
| "resume (GetTaskStatus task_id file_key) out s = after_getTaskStatus task_id file_key out s"
| "resume (GetTaskResult task_id file_key) out s = after_getTaskResult task_id file_key out s"
| "resume (GetOperationStatus operationName file_key) out s =
     after_getOperationStatus operationName file_key out s"
| "resume (ConvertDocument file_key) out s = after_convertDocument file_key out s"
| "resume (GetConvertStatus convertTaskId) out s = after_getConvertStatus convertTaskId out s"
| "resume (GetConvertResult convertTaskId) out s = after_getConvertResult convertTaskId out s"
| "resume (DownloadDocument url) out s = after_downloadDocument out s"

text \<open>A call resolves with the response type of its endpoint, or rejects.\<close>

fun answers :: "request \<Rightarrow> outcome \<Rightarrow> bool" where
  "answers r (Rejected m) = True"
| "answers (UploadDocument file) (Resolved (UploadResponse u k n)) = True"
| "answers (GcsPut k n) (Resolved (FetchResponse ok t)) = True"
| "answers (ProcessDocument k n) (Resolved (TaskIdResponse t)) = True"
| "answers (GetTaskStatus t k) (Resolved (TaskStatusResponse st)) = True"
| "answers (GetTaskResult t k) (Resolved (TaskResultResponse on p)) = True"
| "answers (GetOperationStatus on k) (Resolved (OperationResponse d)) = True"
| "answers (ConvertDocument k) (Resolved (TaskIdResponse t)) = True"
| "answers (GetConvertStatus t) (Resolved (TaskStatusResponse st)) = True"
| "answers (GetConvertResult t) (Resolved (TaskResultResponse on p)) = True"
| "answers (DownloadDocument url) (Resolved (DownloadResponse u n)) = True"
| "answers _ _ = False"

text \<open>
  The events: the user selects a file (or none), the timer with a handle fires, the
  awaited call at a position of the in-flight list settles, the user clicks the download
  button, the user clicks a reset button.
\<close>

datatype event =
  FileSelect "File option"
  | Tick nat
  | Settle nat outcome
  | ClickDownload
  | ClickReset

text \<open>
  One turn of the event loop. A cleared interval never fires, and an event that names no
  active timer or no awaited call changes nothing.
\<close>

fun step :: "event \<Rightarrow> Dashboard \<Rightarrow> Dashboard" where
  "step (FileSelect f) s = handleFileSelect f s"
| "step (Tick h) s = (case map_of (intervals s) h of None \<Rightarrow> s | Some cb \<Rightarrow> fire cb s)"
| "step (Settle i out) s =
     (if i < length (inflight s) \<and> answers (inflight s ! i) out
      then resume (inflight s ! i) out (s\<lparr>inflight := drop_nth i (inflight s)\<rparr>)
      else s)"
| "step ClickDownload s = handleDownload s"
| "step ClickReset s = resetUpload s"

fun run :: "event list \<Rightarrow> Dashboard \<Rightarrow> Dashboard" where
  "run [] s = s"
| "run (e # es) s = run es (step e s)"

text \<open>The upload status after each event of a run.\<close>

fun status_trace :: "event list \<Rightarrow> Dashboard \<Rightarrow> UploadStatus list" where
  "status_trace [] s = []"
| "status_trace (e # es) s = uploadStatus (step e s) # status_trace es (step e s)"

subsection \<open>Scenarios\<close>

text \<open>
  A status other than the two terminal markers keeps a task poll going. A poll round is
  one firing of the interval followed by the response to the check it started; a loop
  that polls alone has its check at the head of the in-flight list.
\<close>

definition pending_status :: "jsstring \<Rightarrow> bool" where
  "pending_status st = (st \<noteq> SUCCESS \<and> st \<noteq> FAILURE)"

fun status_polls :: "nat \<Rightarrow> jsstring list \<Rightarrow> event list" where
  "status_polls h [] = []"
| "status_polls h (st # sts) =
     Tick h # Settle 0 (Resolved (TaskStatusResponse st)) # status_polls h sts"

fun operation_polls :: "nat \<Rightarrow> nat \<Rightarrow> event list" where
  "operation_polls h 0 = []"
| "operation_polls h (Suc n) =
     Tick h # Settle 0 (Resolved (OperationResponse False)) # operation_polls h n"

text \<open>
  The events of a session that runs alone from the initial state, in four parts; its
  three intervals get the handles 1, 2 and 3. The upload: a file is selected, the upload
  target is issued, the transfer succeeds, the file is registered under a task id.
\<close>

definition upload_events ::
  "File \<Rightarrow> jsstring \<Rightarrow> jsstring \<Rightarrow> jsstring \<Rightarrow> jsstring \<Rightarrow> event list" where
  "upload_events file signed_url file_key fname task_id =
     [FileSelect (Some file),
      Settle 0 (Resolved (UploadResponse signed_url file_key fname)),
      Settle 0 (Resolved (FetchResponse True (ascii ''OK''))),
      Settle 0 (Resolved (TaskIdResponse task_id))]"

text \<open>
  The recognition: the task is pending for some polls, then reaches SUCCESS, and its
  result carries the operation name.
\<close>

definition recognition_events :: "jsstring list \<Rightarrow> jsstring \<Rightarrow> event list" where
  "recognition_events sts operationName =
     status_polls 1 sts @
     [Tick 1, Settle 0 (Resolved (TaskStatusResponse SUCCESS)),
      Settle 0 (Resolved (TaskResultResponse (Some operationName) None))]"

text \<open>
  The operation: it is not done for some polls, then done, and the conversion request
  is answered with the id of the convert task.
\<close>

definition operation_events :: "nat \<Rightarrow> jsstring \<Rightarrow> event list" where
  "operation_events n convertTaskId =
     operation_polls 2 n @
     [Tick 2, Settle 0 (Resolved (OperationResponse True)),
      Settle 0 (Resolved (TaskIdResponse convertTaskId))]"

text \<open>
  The conversion: the convert task is pending for some polls, then reaches SUCCESS, and
  its result carries the download path, or none.
\<close>

definition conversion_events :: "jsstring list \<Rightarrow> jsstring option \<Rightarrow> event list" where
  "conversion_events sts path =
     status_polls 3 sts @
     [Tick 3, Settle 0 (Resolved (TaskStatusResponse SUCCESS)),
      Settle 0 (Resolved (TaskResultResponse None path))]"

text \<open>A selected PDF file.\<close>

definition bom_pdf :: File where
  "bom_pdf = \<lparr>file_name = ascii ''bom.pdf'', file_type = application_pdf\<rparr>"

text \<open>A session up to the first check of the status loop, still in flight.\<close>

definition to_status_check :: "event list" where
  "to_status_check =
     upload_events bom_pdf (ascii ''https://gcs/put'') (ascii ''key'') (ascii ''bom.pdf'')
       (ascii ''t1'')
     @ [Tick 1]"

text \<open>A session up to the first check of the convert loop, still in flight.\<close>

definition to_convert_check :: "event list" where
  "to_convert_check =
     upload_events bom_pdf (ascii ''https://gcs/put'') (ascii ''key'') (ascii ''bom.pdf'')
       (ascii ''t1'')
     @ recognition_events [] (ascii ''operations/7'')
     @ operation_events 0 (ascii ''t2'')
     @ [Tick 3]"

text \<open>A whole session that ends with the artifact X at hand.\<close>

definition completed_session :: "event list" where
  "completed_session =
     upload_events bom_pdf (ascii ''https://gcs/put'') (ascii ''key'') (ascii ''bom.pdf'')
       (ascii ''t1'')
     @ recognition_events [] (ascii ''operations/7'')
     @ operation_events 0 (ascii ''t2'')
     @ conversion_events [] (Some (ascii ''X''))"

text \<open>The initial task poll that observes two pending statuses and then SUCCESS.\<close>

definition pending_pending_success :: "jsstring \<Rightarrow> jsstring \<Rightarrow> event list" where
  "pending_pending_success p1 p2 =
     status_polls 1 [p1, p2] @ [Tick 1, Settle 0 (Resolved (TaskStatusResponse SUCCESS))]"

text \<open>
  A session in which the status interval fires a second time while its first check is
  still in flight, and both checks observe SUCCESS and fetch the task result.
\<close>

definition overlapping_success :: "event list" where
  "overlapping_success =
     to_status_check
     @ [Tick 1,
        Settle 0 (Resolved (TaskStatusResponse SUCCESS)),
        Settle 0 (Resolved (TaskStatusResponse SUCCESS)),
        Settle 0 (Resolved (TaskResultResponse (Some (ascii ''operations/7'')) None)),
        Settle 0 (Resolved (TaskResultResponse (Some (ascii ''operations/7'')) None))]"

text \<open>The same overlap, the first check observing SUCCESS and the second PENDING.\<close>

definition overlapping_pending :: "event list" where
  "overlapping_pending =
     to_status_check
     @ [Tick 1,
        Settle 0 (Resolved (TaskStatusResponse SUCCESS)),
        Settle 0 (Resolved (TaskStatusResponse PENDING))]"

text \<open>A second file is selected and uploaded while the first session polls its task.\<close>

definition second_upload :: "event list" where
  "second_upload =
     upload_events bom_pdf (ascii ''https://gcs/put'') (ascii ''key'') (ascii ''bom.pdf'')
       (ascii ''t1'')
     @ upload_events bom_pdf (ascii ''https://gcs/put2'') (ascii ''key2'') (ascii ''bom.pdf'')
         (ascii ''t3'')"


text \<open>
  The convert interval fires twice before a response arrives; the first check
  observes SUCCESS and the result is fetched, and the second observes PENDING.
\<close>

definition overlapping_convert :: "event list" where
  "overlapping_convert =
     to_convert_check
     @ [Tick 3,
        Settle 0 (Resolved (TaskStatusResponse SUCCESS)),
        Settle 1 (Resolved (TaskResultResponse None (Some (ascii ''X'')))),
        Settle 0 (Resolved (TaskStatusResponse PENDING))]"

text \<open>
  After a completed session a second file is selected without a reset, and the result
  of the second convert task carries no path.
\<close>

definition second_session_without_path :: "event list" where
  "second_session_without_path =
     completed_session
     @ upload_events bom_pdf (ascii ''https://gcs/put2'') (ascii ''key2'') (ascii ''bom.pdf'')
         (ascii ''t3'')
     @ [Tick 4, Settle 0 (Resolved (TaskStatusResponse SUCCESS)),
        Settle 0 (Resolved (TaskResultResponse (Some (ascii ''operations/8'')) None)),
        Tick 5, Settle 0 (Resolved (OperationResponse True)),
        Settle 0 (Resolved (TaskIdResponse (ascii ''t4''))),
        Tick 6, Settle 0 (Resolved (TaskStatusResponse SUCCESS)),
        Settle 0 (Resolved (TaskResultResponse None None))]"

text \<open>The four parts of a session that runs alone, the result carrying the path X.\<close>

definition happy_path ::
  "File \<Rightarrow> jsstring \<Rightarrow> jsstring \<Rightarrow> jsstring \<Rightarrow> jsstring \<Rightarrow> jsstring list \<Rightarrow> jsstring \<Rightarrow> nat
     \<Rightarrow> jsstring \<Rightarrow> jsstring list \<Rightarrow> jsstring \<Rightarrow> event list" where
  "happy_path file signed_url file_key fname task_id sts1 operationName n convertTaskId sts3 X =
     upload_events file signed_url file_key fname task_id
     @ recognition_events sts1 operationName
     @ operation_events n convertTaskId
     @ conversion_events sts3 (Some X)"

subsection \<open>Predicates on requests, events and states\<close>

text \<open>The three requests that are the checks of the poll loops.\<close>

fun poll_check :: "request \<Rightarrow> bool" where
  "poll_check (GetTaskStatus task_id file_key) = True"
| "poll_check (GetOperationStatus operationName file_key) = True"
| "poll_check (GetConvertStatus convertTaskId) = True"
| "poll_check _ = False"

text \<open>The event that starts or rejects an upload.\<close>

fun file_selection :: "event \<Rightarrow> bool" where
  "file_selection (FileSelect f) = True"
| "file_selection _ = False"

text \<open>Nothing is pending and no artifact is known.\<close>

definition quiet :: "Dashboard \<Rightarrow> bool" where
  "quiet s = (intervals s = [] \<and> inflight s = [] \<and> downloadUrl s = [] \<and> \<not> showDownload s)"

subsection \<open>Sequential runs\<close>

text \<open>
  A run is sequential when no interval fires while a call is in flight, and a file is
  selected only in the idle or the error stage with no interval active and no call in
  flight.
\<close>

fun allowed :: "event \<Rightarrow> Dashboard \<Rightarrow> bool" where
  "allowed (Tick h) s = (inflight s = [])"
| "allowed (FileSelect f) s =
     ((stage (uploadStatus s) = Idle \<or> stage (uploadStatus s) = Error)
      \<and> inflight s = [] \<and> intervals s = [])"
| "allowed e s = True"

fun sequential :: "event list \<Rightarrow> Dashboard \<Rightarrow> bool" where
  "sequential [] s = True"
| "sequential (e # es) s = (allowed e s \<and> sequential es (step e s))"

text \<open>
  The least progress that shows after an awaited call has settled, or after the check
  of an interval has, when the stage is not the error stage then: the checkpoint the
  continuation writes, or, for a continuation that writes none, the bound of what it
  starts.
\<close>

fun progress_bound :: "request \<Rightarrow> int" where
  "progress_bound (UploadDocument file) = 30"
| "progress_bound (GcsPut file_key fname) = 50"
| "progress_bound (ProcessDocument file_key fname) = 60"
| "progress_bound (GetTaskStatus task_id file_key) = 65"
| "progress_bound (GetTaskResult task_id file_key) = 75"
| "progress_bound (GetOperationStatus operationName file_key) = 75"
| "progress_bound (ConvertDocument file_key) = 85"
| "progress_bound (GetConvertStatus convertTaskId) = 90"
| "progress_bound (GetConvertResult convertTaskId) = 100"
| "progress_bound (DownloadDocument url) = 100"

fun interval_bound :: "interval_callback \<Rightarrow> int" where
  "interval_bound (StatusCheck task_id file_key) = 65"
| "interval_bound (OperationCheck operationName file_key) = 75"
| "interval_bound (ConvertCheck convertTaskId) = 90"

text \<open>The call of the download handler, which belongs to no stage of the pipeline.\<close>

fun download_request :: "request \<Rightarrow> bool" where
  "download_request (DownloadDocument url) = True"
| "download_request r = False"


text \<open>A check belongs to the interval that starts it; a download goes with any.\<close>

fun belongs :: "request \<Rightarrow> interval_callback \<Rightarrow> bool" where
  "belongs (GetTaskStatus task_id file_key) (StatusCheck t k) = True"
| "belongs (GetOperationStatus operationName file_key) (OperationCheck n k) = True"
| "belongs (GetConvertStatus convertTaskId) (ConvertCheck c) = True"
| "belongs (DownloadDocument url) cb = True"
| "belongs r cb = False"

text \<open>The handle of an interval is the one its ref holds.\<close>

fun held :: "Dashboard \<Rightarrow> nat \<Rightarrow> interval_callback \<Rightarrow> bool" where
  "held s h (StatusCheck task_id file_key) = (statusCheckInterval s = Some h)"
| "held s h (OperationCheck operationName file_key) = (operationCheckInterval s = Some h)"
| "held s h (ConvertCheck convertTaskId) = (convertCheckInterval s = Some h)"

text \<open>
  The states of sequential runs. The progress is in range, and is 0 in the idle and
  the error stage; it does not exceed the bound of a call in flight or of an active
  interval; an active interval is held by its ref; at most one call of the pipeline is
  in flight and at most one interval is active; and a call in flight belongs to every
  active interval.
\<close>

definition sequential_state :: "Dashboard \<Rightarrow> bool" where
  "sequential_state s =
     (0 \<le> progress (uploadStatus s) \<and> progress (uploadStatus s) \<le> 100
      \<and> (stage (uploadStatus s) = Idle \<or> stage (uploadStatus s) = Error
           \<longrightarrow> progress (uploadStatus s) = 0)
      \<and> list_all (\<lambda>r. progress (uploadStatus s) \<le> progress_bound r) (inflight s)
      \<and> list_all (\<lambda>(h, cb). progress (uploadStatus s) \<le> interval_bound cb \<and> held s h cb)
            (intervals s)
      \<and> length (filter (\<lambda>r. \<not> download_request r) (inflight s)) \<le> 1
      \<and> length (intervals s) \<le> 1
      \<and> list_all (\<lambda>r. list_all (\<lambda>(h, cb). belongs r cb) (intervals s)) (inflight s))"

text \<open>The stage and progress pairs that the handlers write, the reset apart.\<close>

definition checkpoints :: "(stage \<times> int) set" where
  "checkpoints = {(Uploading, 10), (Uploading, 30), (Processing, 50), (Processing, 60),
     (Processing, 65), (Processing, 70), (Processing, 75), (Converting, 80), (Converting, 85),
     (Converting, 90), (Completed, 100), (Error, 0)}"

section \<open>Properties\<close>

subsection \<open>Evaluation\<close>

text \<open>
  The definitions that evaluate a run on given events, and what the handlers that
  clear intervals leave of each field of the state.
\<close>

lemmas handler_defs =
  handleFileSelect_def handleFileUpload_def handleFileUpload_catch_def statusCheck_catch_def
  operationCheck_catch_def handleDownload_def resetUpload_def clearIntervals_def
  updateStatus_def await_def setInterval_def clearInterval_def drop_nth_def

lemma status_literals:
  "PENDING \<noteq> SUCCESS" "PENDING \<noteq> FAILURE" "SUCCESS \<noteq> FAILURE" "FAILURE \<noteq> SUCCESS"
  "pending_status PENDING"
  by (simp_all add: PENDING_def SUCCESS_def FAILURE_def ascii_def pending_status_def)

lemma run_append: "run (es @ fs) s = run fs (run es s)"
  by (induction es arbitrary: s) simp_all

lemma updateStatus_twice:
  "updateStatus a b c d (updateStatus a' b' c' d' s) = updateStatus a b c d s"
  by (simp add: updateStatus_def)

lemma updateStatus_fields:
  "inflight (updateStatus a b c d s) = inflight s"
  "intervals (updateStatus a b c d s) = intervals s"
  by (simp_all add: updateStatus_def)

lemma fire_fields:
  "uploadStatus (fire cb s) = uploadStatus s"
  "intervals (fire cb s) = intervals s"
  "downloadUrl (fire cb s) = downloadUrl s"
  "showDownload (fire cb s) = showDownload s"
  by (cases cb; simp add: await_def)+

lemma clearIntervals_fields:
  "intervals (clearIntervals s)
     = filter (\<lambda>(h, cb). Some h \<noteq> statusCheckInterval s \<and> Some h \<noteq> operationCheckInterval s
                         \<and> Some h \<noteq> convertCheckInterval s) (intervals s)"
  "statusCheckInterval (clearIntervals s) = None"
  "operationCheckInterval (clearIntervals s) = None"
  "convertCheckInterval (clearIntervals s) = None"
  "inflight (clearIntervals s) = inflight s"
  "uploadStatus (clearIntervals s) = uploadStatus s"
  "downloadUrl (clearIntervals s) = downloadUrl s"
  "showDownload (clearIntervals s) = showDownload s"
  "next_handle (clearIntervals s) = next_handle s"
  by (auto simp: clearIntervals_def clearInterval_def Let_def split: option.splits
      intro!: filter_cong)

lemma resetUpload_fields:
  "uploadStatus (resetUpload s) = \<lparr>stage = Idle, message = [], progress = 0, error = None\<rparr>"
  "downloadUrl (resetUpload s) = []"
  "showDownload (resetUpload s) = False"
  "statusCheckInterval (resetUpload s) = None"
  "operationCheckInterval (resetUpload s) = None"
  "convertCheckInterval (resetUpload s) = None"
  "inflight (resetUpload s) = inflight s"
  "next_handle (resetUpload s) = next_handle s"
  "intervals (resetUpload s)
     = filter (\<lambda>(h, cb). Some h \<noteq> statusCheckInterval s \<and> Some h \<noteq> operationCheckInterval s
                         \<and> Some h \<noteq> convertCheckInterval s) (intervals s)"
  by (simp_all add: resetUpload_def clearIntervals_fields)

lemma held_updates:
  "held (s\<lparr>inflight := xs\<rparr>) h cb = held s h cb"
  "held (s\<lparr>uploadStatus := u\<rparr>) h cb = held s h cb"
  "held (s\<lparr>intervals := ys\<rparr>) h cb = held s h cb"
  "held (s\<lparr>next_handle := n\<rparr>) h cb = held s h cb"
  by (cases cb; simp)+

lemma tick_inactive:
  assumes "h \<notin> fst ` set (intervals s)"
  shows "step (Tick h) s = s"
  using assms by (simp add: map_of_eq_None_iff[THEN iffD2])

subsection \<open>Poll rounds\<close>

text \<open>
  A round of a loop that polls alone writes the pending status of the loop and changes
  nothing else, so any number of rounds leaves the state of the last one.
\<close>

lemma status_poll_round:
  assumes "inflight s = []" and "map_of (intervals s) h = Some (StatusCheck t k)"
    and "pending_status st"
  shows "step (Settle 0 (Resolved (TaskStatusResponse st))) (step (Tick h) s)
         = updateStatus Processing (msg_processing st) 65 None s"
  using assms by (simp add: handler_defs pending_status_def)

lemma convert_poll_round:
  assumes "inflight s = []" and "map_of (intervals s) h = Some (ConvertCheck c)"
    and "pending_status st"
  shows "step (Settle 0 (Resolved (TaskStatusResponse st))) (step (Tick h) s)
         = updateStatus Converting (msg_converting st) 90 None s"
  using assms by (simp add: handler_defs pending_status_def)

lemma operation_poll_round:
  assumes "inflight s = []" and "map_of (intervals s) h = Some (OperationCheck n k)"
  shows "step (Settle 0 (Resolved (OperationResponse False))) (step (Tick h) s)
         = updateStatus Processing msg_operation_pending 75 None s"
  using assms by (simp add: handler_defs)

lemma run_status_polls:
  assumes "inflight s = []" and "map_of (intervals s) h = Some (StatusCheck t k)"
    and "list_all pending_status sts"
  shows "run (status_polls h sts) s
         = (if sts = [] then s else updateStatus Processing (msg_processing (last sts)) 65 None s)"
  using assms
proof (induction sts arbitrary: s)
  case Nil
  then show ?case by simp
next
  case (Cons st sts)
  let ?s1 = "updateStatus Processing (msg_processing st) 65 None s"
  have round: "step (Settle 0 (Resolved (TaskStatusResponse st))) (step (Tick h) s) = ?s1"
    by (rule status_poll_round) (use Cons.prems in simp_all)
  have "run (status_polls h sts) ?s1
        = (if sts = [] then ?s1
           else updateStatus Processing (msg_processing (last sts)) 65 None ?s1)"
    using Cons.prems by (intro Cons.IH) (simp_all add: updateStatus_fields)
  then show ?case
    using round by (simp add: updateStatus_twice)
qed

lemma run_convert_polls:
  assumes "inflight s = []" and "map_of (intervals s) h = Some (ConvertCheck c)"
    and "list_all pending_status sts"
  shows "run (status_polls h sts) s
         = (if sts = [] then s else updateStatus Converting (msg_converting (last sts)) 90 None s)"
  using assms
proof (induction sts arbitrary: s)
  case Nil
  then show ?case by simp
next
  case (Cons st sts)
  let ?s1 = "updateStatus Converting (msg_converting st) 90 None s"
  have round: "step (Settle 0 (Resolved (TaskStatusResponse st))) (step (Tick h) s) = ?s1"
    by (rule convert_poll_round) (use Cons.prems in simp_all)
  have "run (status_polls h sts) ?s1
        = (if sts = [] then ?s1
           else updateStatus Converting (msg_converting (last sts)) 90 None ?s1)"
    using Cons.prems by (intro Cons.IH) (simp_all add: updateStatus_fields)
  then show ?case
    using round by (simp add: updateStatus_twice)
qed

lemma run_operation_polls:
  assumes "inflight s = []" and "map_of (intervals s) h = Some (OperationCheck n k)"
  shows "run (operation_polls h m) s
         = (if m = 0 then s else updateStatus Processing msg_operation_pending 75 None s)"
  using assms
proof (induction m arbitrary: s)
  case 0
  then show ?case by simp
next
  case (Suc m)
  let ?s1 = "updateStatus Processing msg_operation_pending 75 None s"
  have round: "step (Settle 0 (Resolved (OperationResponse False))) (step (Tick h) s) = ?s1"
    by (rule operation_poll_round) (use Suc.prems in simp_all)
  have "run (operation_polls h m) ?s1
        = (if m = 0 then ?s1 else updateStatus Processing msg_operation_pending 75 None ?s1)"
    using Suc.prems by (intro Suc.IH) (simp_all add: updateStatus_fields)
  then show ?case
    using round by (simp add: updateStatus_twice)
qed

subsection \<open>The states of a session that runs alone\<close>

text \<open>
  After each part of its events the session is in a state in which the next loop
  polls: nothing is in flight, the interval of the loop is the only active one, and its
  handle is in the ref.
\<close>

lemma run_upload_events:
  assumes "file_type file = application_pdf"
  shows "run (upload_events file signed_url file_key fname task_id) init
         = \<lparr>uploadStatus = \<lparr>stage = Processing, message = msg_task_started, progress = 60,
                             error = None\<rparr>,
            downloadUrl = [], showDownload = False,
            statusCheckInterval = Some 1, operationCheckInterval = None,
            convertCheckInterval = None,
            intervals = [(1, StatusCheck task_id file_key)], next_handle = 2, inflight = []\<rparr>"
  using assms by (simp add: upload_events_def init_def handler_defs)

lemma run_recognition_events:
  assumes "list_all pending_status sts" and "operationName \<noteq> []"
    and "inflight s = []" and "intervals s = [(1, StatusCheck task_id file_key)]"
    and "statusCheckInterval s = Some 1" and "next_handle s = 2"
  shows "run (recognition_events sts operationName) s
         = s\<lparr>uploadStatus := \<lparr>stage = Processing, message = msg_recognised, progress = 70,
                             error = None\<rparr>,
             operationCheckInterval := Some 2,
             intervals := [(2, OperationCheck operationName file_key)], next_handle := 3\<rparr>"
proof -
  have "run (status_polls 1 sts) s
        = (if sts = [] then s else updateStatus Processing (msg_processing (last sts)) 65 None s)"
    using assms by (intro run_status_polls[where t = task_id and k = file_key]) simp_all
  then show ?thesis
    using assms by (simp add: recognition_events_def run_append handler_defs status_literals)
qed

lemma run_operation_events:
  assumes "inflight s = []" and "intervals s = [(2, OperationCheck operationName file_key)]"
    and "operationCheckInterval s = Some 2" and "next_handle s = 3"
  shows "run (operation_events n convertTaskId) s
         = s\<lparr>uploadStatus := \<lparr>stage = Converting, message = msg_convert_started,
                               progress = 85, error = None\<rparr>,
             convertCheckInterval := Some 3,
             intervals := [(3, ConvertCheck convertTaskId)], next_handle := 4\<rparr>"
proof -
  have "run (operation_polls 2 n) s
        = (if n = 0 then s else updateStatus Processing msg_operation_pending 75 None s)"
    using assms
    by (intro run_operation_polls[where n = operationName and k = file_key]) simp_all
  then show ?thesis
    using assms by (simp add: operation_events_def run_append handler_defs)
qed

lemma run_conversion_polls:
  assumes "list_all pending_status sts"
    and "inflight s = []" and "intervals s = [(3, ConvertCheck convertTaskId)]"
  shows "run (status_polls 3 sts @ [Tick 3]) s
         = (if sts = [] then s
            else updateStatus Converting (msg_converting (last sts)) 90 None s)
           \<lparr>inflight := [GetConvertStatus convertTaskId]\<rparr>"
proof -
  have "run (status_polls 3 sts) s
        = (if sts = [] then s
           else updateStatus Converting (msg_converting (last sts)) 90 None s)"
    using assms by (intro run_convert_polls[where c = convertTaskId]) simp_all
  then show ?thesis
    using assms by (simp add: run_append handler_defs)
qed

lemma run_conversion_events:
  assumes "list_all pending_status sts"
    and "inflight s = []" and "intervals s = [(3, ConvertCheck convertTaskId)]"
    and "convertCheckInterval s = Some 3"
  shows "run (conversion_events sts path) s
         = (case path of
              None \<Rightarrow> s\<lparr>uploadStatus := \<lparr>stage = Completed, message = msg_convert_done,
                                          progress = 100, error = None\<rparr>,
                        intervals := []\<rparr>
            | Some gcs_download_path \<Rightarrow>
                if gcs_download_path = [] then
                  s\<lparr>uploadStatus := \<lparr>stage = Completed, message = msg_convert_done,
                                      progress = 100, error = None\<rparr>,
                    intervals := []\<rparr>
                else
                  s\<lparr>uploadStatus := \<lparr>stage = Completed, message = msg_convert_done,
                                      progress = 100, error = None\<rparr>,
                    downloadUrl := gcs_download_path, showDownload := True,
                    intervals := []\<rparr>)"
proof -
  have "run (status_polls 3 sts @ [Tick 3]) s
        = (if sts = [] then s
           else updateStatus Converting (msg_converting (last sts)) 90 None s)
          \<lparr>inflight := [GetConvertStatus convertTaskId]\<rparr>"
    using assms by (intro run_conversion_polls) simp_all
  moreover have "conversion_events sts path
      = (status_polls 3 sts @ [Tick 3])
        @ [Settle 0 (Resolved (TaskStatusResponse SUCCESS)),
           Settle 0 (Resolved (TaskResultResponse None path))]"
    by (simp add: conversion_events_def)
  ultimately have "run (conversion_events sts path) s
     = run [Settle 0 (Resolved (TaskStatusResponse SUCCESS)),
            Settle 0 (Resolved (TaskResultResponse None path))]
         ((if sts = [] then s
           else updateStatus Converting (msg_converting (last sts)) 90 None s)
          \<lparr>inflight := [GetConvertStatus convertTaskId]\<rparr>)"
    by (simp only: run_append)
  then show ?thesis
    using assms by (simp add: handler_defs split: option.splits)
qed

lemma run_to_status_check:
  "run to_status_check init
   = \<lparr>uploadStatus = \<lparr>stage = Processing, message = msg_task_started, progress = 60,
                       error = None\<rparr>,
      downloadUrl = [], showDownload = False, statusCheckInterval = Some 1,
      operationCheckInterval = None, convertCheckInterval = None,
      intervals = [(1, StatusCheck (ascii ''t1'') (ascii ''key''))], next_handle = 2,
      inflight = [GetTaskStatus (ascii ''t1'') (ascii ''key'')]\<rparr>"
  by (simp add: to_status_check_def upload_events_def bom_pdf_def init_def handler_defs)

text \<open>The state in which the convert loop has a check in flight.\<close>

lemma run_to_convert_check:
  "run to_convert_check init
   = \<lparr>uploadStatus = \<lparr>stage = Converting, message = msg_convert_started, progress = 85,
                       error = None\<rparr>,
      downloadUrl = [], showDownload = False, statusCheckInterval = Some 1,
      operationCheckInterval = Some 2, convertCheckInterval = Some 3,
      intervals = [(3, ConvertCheck (ascii ''t2''))], next_handle = 4,
      inflight = [GetConvertStatus (ascii ''t2'')]\<rparr>"
  by (simp add: to_convert_check_def upload_events_def recognition_events_def
      operation_events_def bom_pdf_def init_def handler_defs status_literals ascii_def)

lemma run_completed_session:
  "run completed_session init
   = \<lparr>uploadStatus = \<lparr>stage = Completed, message = msg_convert_done, progress = 100,
                       error = None\<rparr>,
      downloadUrl = ascii ''X'', showDownload = True, statusCheckInterval = Some 1,
      operationCheckInterval = Some 2, convertCheckInterval = Some 3,
      intervals = [], next_handle = 4, inflight = []\<rparr>"
  by (simp add: completed_session_def upload_events_def recognition_events_def
      operation_events_def conversion_events_def bom_pdf_def init_def handler_defs
      status_literals ascii_def)

subsection \<open>Completion without an artifact\<close>

text \<open>A quiet state stays quiet until a file is selected.\<close>

lemma quiet_step:
  assumes "quiet s" and "\<not> file_selection e"
  shows "quiet (step e s)"
  using assms
  by (cases e)
     (simp_all add: quiet_def handleFileSelect_def handleDownload_def resetUpload_def
        updateStatus_def clearIntervals_fields)

lemma quiet_run:
  assumes "quiet s" and "list_all (\<lambda>e. \<not> file_selection e) es"
  shows "quiet (run es s)"
  using assms by (induction es arbitrary: s) (simp_all add: quiet_step)

text \<open>
  As stated, C10 fails. A session completes with the artifact X; without a reset a
  second file is selected, and the convert task of the second session reaches SUCCESS
  with a result that carries no path: the stage is completed at progress 100, the
  download URL is still X and the download control is shown.
\<close>

theorem stale_artifact_after_second_session:
  "uploadStatus (run second_session_without_path init)
     = \<lparr>stage = Completed, message = msg_convert_done, progress = 100, error = None\<rparr>
   \<and> downloadUrl (run second_session_without_path init) = ascii ''X''
   \<and> download_control_shown (run second_session_without_path init)"
  by (simp add: second_session_without_path_def run_append run_completed_session
      upload_events_def bom_pdf_def handler_defs status_literals ascii_def
      download_control_shown_def)

text \<open>A convert result with no path changes nothing: its call is no longer in flight.\<close>

lemma result_without_path:
  assumes "j < length (inflight t)" and "inflight t ! j = GetConvertResult convertTaskId"
    and "path = None \<or> path = Some []"
  shows "step (Settle j (Resolved (TaskResultResponse operation_name path))) t
         = t\<lparr>inflight := drop_nth j (inflight t)\<rparr>"
  using assms by auto

text \<open>
  C10, amended. If the convert task reaches SUCCESS and its result carries no download
  path (the field is absent or empty), the stage still becomes completed with progress
  100, the result is fetched, and neither the SUCCESS nor the result touches the
  download URL or the download flag: they are left as they were. Where they were unset
  and the check was the only pending work of the component, the download URL stays
  empty and the download control is not rendered, whatever happens afterwards, until a
  file is selected again.
\<close>

theorem completed_without_artifact:
  assumes "i < length (inflight s)" and "inflight s ! i = GetConvertStatus convertTaskId"
    and "path = None \<or> path = Some []"
  shows "uploadStatus (step (Settle i (Resolved (TaskStatusResponse SUCCESS))) s)
           = \<lparr>stage = Completed, message = msg_convert_done, progress = 100, error = None\<rparr>
       \<and> inflight (step (Settle i (Resolved (TaskStatusResponse SUCCESS))) s)
           = drop_nth i (inflight s) @ [GetConvertResult convertTaskId]
       \<and> downloadUrl (step (Settle i (Resolved (TaskStatusResponse SUCCESS))) s) = downloadUrl s
       \<and> showDownload (step (Settle i (Resolved (TaskStatusResponse SUCCESS))) s)
           = showDownload s
       \<and> (\<forall>j. j < length (inflight (step (Settle i (Resolved (TaskStatusResponse SUCCESS))) s))
              \<and> inflight (step (Settle i (Resolved (TaskStatusResponse SUCCESS))) s) ! j
                 = GetConvertResult convertTaskId
            \<longrightarrow> step (Settle j (Resolved (TaskResultResponse operation_name path)))
                  (step (Settle i (Resolved (TaskStatusResponse SUCCESS))) s)
                = (step (Settle i (Resolved (TaskStatusResponse SUCCESS))) s)
                    \<lparr>inflight := drop_nth j
                       (inflight (step (Settle i (Resolved (TaskStatusResponse SUCCESS))) s))\<rparr>)
       \<and> (inflight s = [GetConvertStatus convertTaskId]
            \<and> (\<forall>(h, cb) \<in> set (intervals s). convertCheckInterval s = Some h)
            \<and> downloadUrl s = [] \<and> \<not> showDownload s
            \<and> list_all (\<lambda>e. \<not> file_selection e) es
          \<longrightarrow> downloadUrl (run ([Settle 0 (Resolved (TaskStatusResponse SUCCESS)),
                   Settle 0 (Resolved (TaskResultResponse operation_name path))] @ es) s) = []
              \<and> \<not> download_control_shown (run ([Settle 0 (Resolved (TaskStatusResponse SUCCESS)),
                   Settle 0 (Resolved (TaskResultResponse operation_name path))] @ es) s))"
proof -
  let ?s1 = "step (Settle i (Resolved (TaskStatusResponse SUCCESS))) s"
  have first: "uploadStatus ?s1
           = \<lparr>stage = Completed, message = msg_convert_done, progress = 100, error = None\<rparr>
       \<and> inflight ?s1 = drop_nth i (inflight s) @ [GetConvertResult convertTaskId]
       \<and> downloadUrl ?s1 = downloadUrl s \<and> showDownload ?s1 = showDownload s"
    using assms(1,2) by (simp add: updateStatus_def await_def clearInterval_def)
  have second: "step (Settle j (Resolved (TaskResultResponse operation_name path))) ?s1
                = ?s1\<lparr>inflight := drop_nth j (inflight ?s1)\<rparr>"
    if "j < length (inflight ?s1) \<and> inflight ?s1 ! j = GetConvertResult convertTaskId" for j
    using that assms(3) by (intro result_without_path) blast+
  have third: "downloadUrl (run ([Settle 0 (Resolved (TaskStatusResponse SUCCESS)),
                   Settle 0 (Resolved (TaskResultResponse operation_name path))] @ es) s) = []
              \<and> \<not> download_control_shown (run ([Settle 0 (Resolved (TaskStatusResponse SUCCESS)),
                   Settle 0 (Resolved (TaskResultResponse operation_name path))] @ es) s)"
    if q: "inflight s = [GetConvertStatus convertTaskId]
            \<and> (\<forall>(h, cb) \<in> set (intervals s). convertCheckInterval s = Some h)
            \<and> downloadUrl s = [] \<and> \<not> showDownload s
            \<and> list_all (\<lambda>e. \<not> file_selection e) es"
  proof -
    define s2 where "s2 = run [Settle 0 (Resolved (TaskStatusResponse SUCCESS)),
             Settle 0 (Resolved (TaskResultResponse operation_name path))] s"
    have cleared: "filter (\<lambda>(i, cb). Some i \<noteq> convertCheckInterval s) (intervals s) = []"
      using q by (auto simp: filter_empty_conv)
    have s2: "s2 = s\<lparr>uploadStatus := \<lparr>stage = Completed, message = msg_convert_done,
                                     progress = 100, error = None\<rparr>,
                   intervals := [], inflight := []\<rparr>"
      unfolding s2_def using q assms(3) cleared by (auto simp: handler_defs)
    then have "quiet s2"
      using q by (simp add: quiet_def)
    then have "quiet (run es s2)"
      using q by (intro quiet_run) simp_all
    then show ?thesis
      by (simp only: run_append s2_def) (simp add: quiet_def download_control_shown_def)
  qed
  show ?thesis
    using first second third by blast
qed

text \<open>The session whose convert result has no path, followed by a click and a late tick.\<close>

theorem completed_without_artifact_witness:
  "0 < length (inflight (run to_convert_check init))
   \<and> inflight (run to_convert_check init) = [GetConvertStatus (ascii ''t2'')]
   \<and> list_all (\<lambda>hc. convertCheckInterval (run to_convert_check init) = Some (fst hc))
        (intervals (run to_convert_check init))
   \<and> downloadUrl (run to_convert_check init) = []
   \<and> \<not> showDownload (run to_convert_check init)
   \<and> list_all (\<lambda>e. \<not> file_selection e) [ClickDownload, Tick 3]
   \<and> uploadStatus (step (Settle 0 (Resolved (TaskStatusResponse SUCCESS)))
         (run to_convert_check init))
       = \<lparr>stage = Completed, message = msg_convert_done, progress = 100, error = None\<rparr>
   \<and> inflight (step (Settle 0 (Resolved (TaskStatusResponse SUCCESS)))
         (run to_convert_check init)) = [GetConvertResult (ascii ''t2'')]
   \<and> downloadUrl (run ([Settle 0 (Resolved (TaskStatusResponse SUCCESS)),
         Settle 0 (Resolved (TaskResultResponse None None))] @ [ClickDownload, Tick 3])
         (run to_convert_check init)) = []
   \<and> \<not> download_control_shown (run ([Settle 0 (Resolved (TaskStatusResponse SUCCESS)),
         Settle 0 (Resolved (TaskResultResponse None None))] @ [ClickDownload, Tick 3])
         (run to_convert_check init))"
proof -
  have h: "0 < length (inflight (run to_convert_check init))"
    "inflight (run to_convert_check init) ! 0 = GetConvertStatus (ascii ''t2'')"
    "(None :: jsstring option) = None \<or> (None :: jsstring option) = Some []"
    by (simp_all add: run_to_convert_check)
  have q: "inflight (run to_convert_check init) = [GetConvertStatus (ascii ''t2'')]"
    "\<forall>(h, cb) \<in> set (intervals (run to_convert_check init)).
       convertCheckInterval (run to_convert_check init) = Some h"
    "downloadUrl (run to_convert_check init) = []"
    "\<not> showDownload (run to_convert_check init)"
    "list_all (\<lambda>e. \<not> file_selection e) [ClickDownload, Tick 3]"
    by (simp_all add: run_to_convert_check)
  have l: "list_all (\<lambda>hc. convertCheckInterval (run to_convert_check init) = Some (fst hc))
        (intervals (run to_convert_check init))"
    by (simp add: run_to_convert_check)
  have d: "drop_nth 0 (inflight (run to_convert_check init)) @ [GetConvertResult (ascii ''t2'')]
      = [GetConvertResult (ascii ''t2'')]"
    by (simp add: run_to_convert_check drop_nth_def)
  note t = completed_without_artifact[OF h, where es = "[ClickDownload, Tick 3]"
      and operation_name = None]
  from t have a: "uploadStatus (step (Settle 0 (Resolved (TaskStatusResponse SUCCESS)))
         (run to_convert_check init))
       = \<lparr>stage = Completed, message = msg_convert_done, progress = 100, error = None\<rparr>"
    by blast
  from t have "inflight (step (Settle 0 (Resolved (TaskStatusResponse SUCCESS)))
         (run to_convert_check init))
       = drop_nth 0 (inflight (run to_convert_check init)) @ [GetConvertResult (ascii ''t2'')]"
    by blast
  then have b: "inflight (step (Settle 0 (Resolved (TaskStatusResponse SUCCESS)))
         (run to_convert_check init)) = [GetConvertResult (ascii ''t2'')]"
    by (simp only: d)
  from t q have c: "downloadUrl (run ([Settle 0 (Resolved (TaskStatusResponse SUCCESS)),
         Settle 0 (Resolved (TaskResultResponse None None))] @ [ClickDownload, Tick 3])
         (run to_convert_check init)) = []
   \<and> \<not> download_control_shown (run ([Settle 0 (Resolved (TaskStatusResponse SUCCESS)),
         Settle 0 (Resolved (TaskResultResponse None None))] @ [ClickDownload, Tick 3])
         (run to_convert_check init))"
    by blast
  show ?thesis
    using h(1) q(1,3,4,5) l a b c by blast
qed

subsection \<open>Rejected checks\<close>

text \<open>
  What each loop does when its check rejects: the status and the operation callback
  catch the rejection, the convert callback drops it.
\<close>

lemma status_check_rejection_is_failure:
  assumes "i < length (inflight s)" and "inflight s ! i = GetTaskStatus task_id file_key"
  shows "uploadStatus (step (Settle i (Rejected m)) s)
           = \<lparr>stage = Error, message = msg_status_check_failed, progress = 0, error = Some m\<rparr>
       \<and> intervals (step (Settle i (Rejected m)) s)
           = filter (\<lambda>(h, cb). Some h \<noteq> statusCheckInterval s) (intervals s)"
  using assms by (simp add: handler_defs)

lemma operation_check_rejection_is_failure:
  assumes "i < length (inflight s)"
    and "inflight s ! i = GetOperationStatus operationName file_key"
  shows "uploadStatus (step (Settle i (Rejected m)) s)
           = \<lparr>stage = Error, message = msg_operation_query_failed, progress = 0,
              error = Some m\<rparr>
       \<and> intervals (step (Settle i (Rejected m)) s)
           = filter (\<lambda>(h, cb). Some h \<noteq> operationCheckInterval s) (intervals s)"
  using assms by (simp add: handler_defs)

lemma convert_check_rejection_is_dropped:
  assumes "i < length (inflight s)" and "inflight s ! i = GetConvertStatus convertTaskId"
  shows "step (Settle i (Rejected m)) s = s\<lparr>inflight := drop_nth i (inflight s)\<rparr>"
  using assms by simp

text \<open>
  C3. A rejected check is a failure of the loop: the interval is cleared and the stage
  becomes error. The status loop and the operation loop do so (the two lemmas above).
  The convert loop does not: evaluated at a rejected check of the convert loop, the stage
  stays converting with no error, the interval stays active, and its next firing starts
  another check.
\<close>

theorem convert_check_rejection_keeps_polling:
  "stage (uploadStatus (run (to_convert_check @ [Settle 0 (Rejected (ascii ''Network Error''))])
      init)) = Converting
   \<and> error (uploadStatus (run (to_convert_check @ [Settle 0 (Rejected (ascii ''Network Error''))])
      init)) = None
   \<and> intervals (run (to_convert_check @ [Settle 0 (Rejected (ascii ''Network Error''))]) init)
       = [(3, ConvertCheck (ascii ''t2''))]
   \<and> inflight (run (to_convert_check @ [Settle 0 (Rejected (ascii ''Network Error'')), Tick 3])
      init) = [GetConvertStatus (ascii ''t2'')]"
  by (simp add: run_append run_to_convert_check handler_defs)

subsection \<open>Cancellation while a check is in flight\<close>

text \<open>
  As stated, C1 fails. The status interval has fired and its check is in flight; reset
  clears the interval and sets the idle state; the check then resolves with a pending
  status, and its outcome is applied: the stage is processing again, at progress 65.
\<close>

theorem late_result_applied_after_reset:
  "intervals (run (to_status_check @ [ClickReset]) init) = []
   \<and> uploadStatus (run (to_status_check @ [ClickReset]) init)
       = \<lparr>stage = Idle, message = [], progress = 0, error = None\<rparr>
   \<and> uploadStatus (run (to_status_check
         @ [ClickReset, Settle 0 (Resolved (TaskStatusResponse PENDING))]) init)
       = \<lparr>stage = Processing, message = msg_processing PENDING, progress = 65, error = None\<rparr>"
  by (simp add: run_append run_to_status_check handler_defs status_literals Let_def)

text \<open>
  The same through the rendered controls: a second check is in flight when the first
  rejects, the catch clears the interval and shows the error stage with its reset
  button, reset is clicked, and the second check then resolves.
\<close>

lemma late_result_with_reset_button:
  "reset_control_shown (run (to_status_check
       @ [Tick 1, Settle 0 (Rejected (ascii ''Network Error''))]) init)
   \<and> intervals (run (to_status_check
       @ [Tick 1, Settle 0 (Rejected (ascii ''Network Error''))]) init) = []
   \<and> inflight (run (to_status_check
       @ [Tick 1, Settle 0 (Rejected (ascii ''Network Error''))]) init)
       = [GetTaskStatus (ascii ''t1'') (ascii ''key'')]
   \<and> stage (uploadStatus (run (to_status_check
       @ [Tick 1, Settle 0 (Rejected (ascii ''Network Error'')), ClickReset]) init)) = Idle
   \<and> stage (uploadStatus (run (to_status_check
       @ [Tick 1, Settle 0 (Rejected (ascii ''Network Error'')), ClickReset,
          Settle 0 (Resolved (TaskStatusResponse PENDING))]) init)) = Processing"
  by (simp add: run_append run_to_status_check handler_defs status_literals Let_def
      reset_control_shown_def)

lemma check_outcome_overwrites:
  assumes "poll_check r" and "answers r (Resolved x)"
  shows "uploadStatus (resume r (Resolved x) s) = uploadStatus (resume r (Resolved x) s')
       \<and> stage (uploadStatus (resume r (Resolved x) s)) \<noteq> Idle"
  using assms
  by (cases r; cases x) (simp_all add: updateStatus_def await_def)

text \<open>
  The code after a resolved check reads of the state only the ref whose interval it
  clears, so it does after a reset what it does without one.
\<close>

lemma check_outcome_after_reset:
  assumes "poll_check r" and "answers r (Resolved x)"
  shows "resume r (Resolved x) ((resetUpload s)\<lparr>inflight := xs\<rparr>)
         = (resume r (Resolved x) (s\<lparr>inflight := xs\<rparr>))
             \<lparr>downloadUrl := [], showDownload := False,
              statusCheckInterval := None, operationCheckInterval := None,
              convertCheckInterval := None, intervals := intervals (resetUpload s)\<rparr>"
  using assms
  by (cases r; cases x)
     (simp_all add: resetUpload_def updateStatus_def await_def clearInterval_def
        clearIntervals_fields)

text \<open>
  C1, amended. If reset cancels a poll loop while one of its checks is in flight, the
  cleared interval starts no further check (its firing changes nothing) and the check
  stays in flight; when the check resolves, its outcome is not discarded but applied
  exactly as without the reset: the state after it is the state it would have reached
  without the reset, with the refs, the intervals, the download URL and the download
  flag as the reset left them. So it writes the same upload status, never the idle one,
  and issues the same next call of the chain.
\<close>

theorem reset_stops_ticks_not_inflight_check:
  assumes "i < length (inflight s)" and "poll_check (inflight s ! i)"
    and "answers (inflight s ! i) (Resolved x)"
  shows "(\<forall>h. statusCheckInterval s = Some h \<or> operationCheckInterval s = Some h
              \<or> convertCheckInterval s = Some h
            \<longrightarrow> step (Tick h) (resetUpload s) = resetUpload s)
       \<and> inflight (resetUpload s) = inflight s
       \<and> step (Settle i (Resolved x)) (resetUpload s)
           = (step (Settle i (Resolved x)) s)
               \<lparr>downloadUrl := [], showDownload := False,
                statusCheckInterval := None, operationCheckInterval := None,
                convertCheckInterval := None, intervals := intervals (resetUpload s)\<rparr>
       \<and> uploadStatus (step (Settle i (Resolved x)) (resetUpload s))
           = uploadStatus (step (Settle i (Resolved x)) s)
       \<and> inflight (step (Settle i (Resolved x)) (resetUpload s))
           = inflight (step (Settle i (Resolved x)) s)
       \<and> next_handle (step (Settle i (Resolved x)) (resetUpload s))
           = next_handle (step (Settle i (Resolved x)) s)
       \<and> stage (uploadStatus (step (Settle i (Resolved x)) (resetUpload s))) \<noteq> Idle"
proof -
  have ticks: "step (Tick h) (resetUpload s) = resetUpload s"
    if "statusCheckInterval s = Some h \<or> operationCheckInterval s = Some h
        \<or> convertCheckInterval s = Some h" for h
    using that by (intro tick_inactive) (auto simp: resetUpload_fields)
  have same: "inflight (resetUpload s) = inflight s"
    by (simp add: resetUpload_fields)
  have left: "step (Settle i (Resolved x)) (resetUpload s)
      = resume (inflight s ! i) (Resolved x)
          ((resetUpload s)\<lparr>inflight := drop_nth i (inflight s)\<rparr>)"
    using assms(1,3) by (simp add: same)
  have right: "step (Settle i (Resolved x)) s
      = resume (inflight s ! i) (Resolved x) (s\<lparr>inflight := drop_nth i (inflight s)\<rparr>)"
    using assms(1,3) by simp
  have eq: "step (Settle i (Resolved x)) (resetUpload s)
           = (step (Settle i (Resolved x)) s)
               \<lparr>downloadUrl := [], showDownload := False,
                statusCheckInterval := None, operationCheckInterval := None,
                convertCheckInterval := None, intervals := intervals (resetUpload s)\<rparr>"
    unfolding left right using assms(2,3) by (rule check_outcome_after_reset)
  have fields: "uploadStatus (step (Settle i (Resolved x)) (resetUpload s))
           = uploadStatus (step (Settle i (Resolved x)) s)"
    "inflight (step (Settle i (Resolved x)) (resetUpload s))
           = inflight (step (Settle i (Resolved x)) s)"
    "next_handle (step (Settle i (Resolved x)) (resetUpload s))
           = next_handle (step (Settle i (Resolved x)) s)"
    by (simp_all only: eq) simp_all
  have "stage (uploadStatus (step (Settle i (Resolved x)) (resetUpload s))) \<noteq> Idle"
    unfolding left using check_outcome_overwrites[OF assms(2,3)] by blast
  then show ?thesis
    using ticks same eq fields by blast
qed

text \<open>
  Reset during the first status check, which then resolves with SUCCESS: the status is
  written and the task result is fetched.
\<close>

theorem reset_stops_ticks_not_inflight_check_witness:
  "0 < length (inflight (run to_status_check init))
   \<and> poll_check (inflight (run to_status_check init) ! 0)
   \<and> answers (inflight (run to_status_check init) ! 0) (Resolved (TaskStatusResponse SUCCESS))
   \<and> statusCheckInterval (run to_status_check init) = Some 1
   \<and> step (Tick 1) (resetUpload (run to_status_check init))
       = resetUpload (run to_status_check init)
   \<and> inflight (resetUpload (run to_status_check init))
       = [GetTaskStatus (ascii ''t1'') (ascii ''key'')]
   \<and> uploadStatus (step (Settle 0 (Resolved (TaskStatusResponse SUCCESS)))
         (resetUpload (run to_status_check init)))
       = \<lparr>stage = Processing, message = msg_recognised, progress = 70, error = None\<rparr>
   \<and> inflight (step (Settle 0 (Resolved (TaskStatusResponse SUCCESS)))
         (resetUpload (run to_status_check init)))
       = [GetTaskResult (ascii ''t1'') (ascii ''key'')]"
proof -
  have h: "0 < length (inflight (run to_status_check init))"
    "poll_check (inflight (run to_status_check init) ! 0)"
    "answers (inflight (run to_status_check init) ! 0) (Resolved (TaskStatusResponse SUCCESS))"
    by (simp_all add: run_to_status_check)
  have r: "statusCheckInterval (run to_status_check init) = Some 1"
    by (simp add: run_to_status_check)
  have u: "uploadStatus (step (Settle 0 (Resolved (TaskStatusResponse SUCCESS)))
         (run to_status_check init))
       = \<lparr>stage = Processing, message = msg_recognised, progress = 70, error = None\<rparr>"
    "inflight (step (Settle 0 (Resolved (TaskStatusResponse SUCCESS)))
         (run to_status_check init))
       = [GetTaskResult (ascii ''t1'') (ascii ''key'')]"
    by (simp_all add: run_to_status_check handler_defs)
  have i: "inflight (run to_status_check init) = [GetTaskStatus (ascii ''t1'') (ascii ''key'')]"
    by (simp add: run_to_status_check)
  note t = reset_stops_ticks_not_inflight_check[OF h]
  from t r have a: "step (Tick 1) (resetUpload (run to_status_check init))
       = resetUpload (run to_status_check init)"
    by blast
  from t have "inflight (resetUpload (run to_status_check init))
       = inflight (run to_status_check init)"
    by blast
  then have b: "inflight (resetUpload (run to_status_check init))
       = [GetTaskStatus (ascii ''t1'') (ascii ''key'')]"
    by (simp only: i)
  from t have "uploadStatus (step (Settle 0 (Resolved (TaskStatusResponse SUCCESS)))
         (resetUpload (run to_status_check init)))
       = uploadStatus (step (Settle 0 (Resolved (TaskStatusResponse SUCCESS)))
         (run to_status_check init))"
    by blast
  then have c: "uploadStatus (step (Settle 0 (Resolved (TaskStatusResponse SUCCESS)))
         (resetUpload (run to_status_check init)))
       = \<lparr>stage = Processing, message = msg_recognised, progress = 70, error = None\<rparr>"
    by (simp only: u)
  from t have "inflight (step (Settle 0 (Resolved (TaskStatusResponse SUCCESS)))
         (resetUpload (run to_status_check init)))
       = inflight (step (Settle 0 (Resolved (TaskStatusResponse SUCCESS)))
         (run to_status_check init))"
    by blast
  then have d: "inflight (step (Settle 0 (Resolved (TaskStatusResponse SUCCESS)))
         (resetUpload (run to_status_check init)))
       = [GetTaskResult (ascii ''t1'') (ascii ''key'')]"
    by (simp only: u)
  show ?thesis
    using h r a b c d by blast
qed

subsection \<open>Reset\<close>

text \<open>
  As stated, C2 fails. Two overlapping status checks both observe SUCCESS, and each
  starts an operation interval; the ref holds the handle of the second only. Reset, from
  the processing stage, clears that one: the first operation interval stays active, and
  its next check moves the stage from idle back to processing.
\<close>

theorem reset_leaves_overwritten_interval:
  "intervals (run overlapping_success init)
     = [(2, OperationCheck (ascii ''operations/7'') (ascii ''key'')),
        (3, OperationCheck (ascii ''operations/7'') (ascii ''key''))]
   \<and> operationCheckInterval (run overlapping_success init) = Some 3
   \<and> stage (uploadStatus (run overlapping_success init)) = Processing
   \<and> intervals (run (overlapping_success @ [ClickReset]) init)
       = [(2, OperationCheck (ascii ''operations/7'') (ascii ''key''))]
   \<and> stage (uploadStatus (run (overlapping_success
         @ [ClickReset, Tick 2, Settle 0 (Resolved (OperationResponse False))]) init))
       = Processing"
  by (simp add: overlapping_success_def run_append run_to_status_check handler_defs
      status_literals ascii_def Let_def)

text \<open>
  The same through the rendered controls: a check of the operation interval that the
  ref holds rejects, the error stage shows the reset button, and reset leaves the other
  operation interval active.
\<close>

lemma overwritten_interval_with_reset_button:
  "reset_control_shown (run (overlapping_success
       @ [Tick 3, Settle 0 (Rejected (ascii ''Network Error''))]) init)
   \<and> intervals (run (overlapping_success
       @ [Tick 3, Settle 0 (Rejected (ascii ''Network Error'')), ClickReset]) init)
       = [(2, OperationCheck (ascii ''operations/7'') (ascii ''key''))]"
  by (simp add: overlapping_success_def run_append run_to_status_check handler_defs
      status_literals ascii_def Let_def reset_control_shown_def)

text \<open>
  C2, amended. Reset from any stage returns the upload status to exactly the idle one
  (progress 0, empty message, no error), clears the download URL and the download flag,
  nulls the three interval refs, and cancels exactly the intervals whose handles the
  refs hold: no interval stays active when every active interval is held in a ref.
\<close>

theorem reset_clears_held_intervals:
  "uploadStatus (resetUpload s) = \<lparr>stage = Idle, message = [], progress = 0, error = None\<rparr>
   \<and> downloadUrl (resetUpload s) = [] \<and> \<not> showDownload (resetUpload s)
   \<and> statusCheckInterval (resetUpload s) = None
   \<and> operationCheckInterval (resetUpload s) = None
   \<and> convertCheckInterval (resetUpload s) = None
   \<and> intervals (resetUpload s)
       = filter (\<lambda>(h, cb). Some h \<noteq> statusCheckInterval s
                           \<and> Some h \<noteq> operationCheckInterval s
                           \<and> Some h \<noteq> convertCheckInterval s) (intervals s)
   \<and> ((\<forall>(h, cb) \<in> set (intervals s).
          Some h = statusCheckInterval s \<or> Some h = operationCheckInterval s
          \<or> Some h = convertCheckInterval s)
        \<longrightarrow> intervals (resetUpload s) = [])"
  by (auto simp: resetUpload_fields filter_empty_conv)

text \<open>Reset while the first check of the convert loop is in flight.\<close>

theorem reset_clears_held_intervals_witness:
  "stage (uploadStatus (run to_convert_check init)) = Converting
   \<and> intervals (run to_convert_check init) = [(3, ConvertCheck (ascii ''t2''))]
   \<and> convertCheckInterval (run to_convert_check init) = Some 3
   \<and> inflight (run to_convert_check init) = [GetConvertStatus (ascii ''t2'')]
   \<and> uploadStatus (resetUpload (run to_convert_check init))
       = \<lparr>stage = Idle, message = [], progress = 0, error = None\<rparr>
   \<and> downloadUrl (resetUpload (run to_convert_check init)) = []
   \<and> convertCheckInterval (resetUpload (run to_convert_check init)) = None
   \<and> intervals (resetUpload (run to_convert_check init)) = []"
proof -
  have h: "\<forall>(h, cb) \<in> set (intervals (run to_convert_check init)).
          Some h = statusCheckInterval (run to_convert_check init)
          \<or> Some h = operationCheckInterval (run to_convert_check init)
          \<or> Some h = convertCheckInterval (run to_convert_check init)"
    by (simp add: run_to_convert_check)
  have pre: "stage (uploadStatus (run to_convert_check init)) = Converting"
    "intervals (run to_convert_check init) = [(3, ConvertCheck (ascii ''t2''))]"
    "convertCheckInterval (run to_convert_check init) = Some 3"
    "inflight (run to_convert_check init) = [GetConvertStatus (ascii ''t2'')]"
    by (simp_all add: run_to_convert_check)
  show ?thesis
    using pre h reset_clears_held_intervals[of "run to_convert_check init"]
    by blast
qed

subsection \<open>A new upload during a session\<close>

text \<open>
  As stated, C4 fails. A second file is selected while the first session is in the
  processing stage and its status interval is active: the first remote call of the new
  session is issued with that interval still active, and once the second session has
  registered its file two status intervals are active and both start checks.
\<close>

theorem second_upload_runs_two_loops:
  "stage (uploadStatus (run (upload_events bom_pdf (ascii ''https://gcs/put'') (ascii ''key'')
       (ascii ''bom.pdf'') (ascii ''t1'')) init)) = Processing
   \<and> intervals (run (upload_events bom_pdf (ascii ''https://gcs/put'') (ascii ''key'')
       (ascii ''bom.pdf'') (ascii ''t1'') @ [FileSelect (Some bom_pdf)]) init)
       = [(1, StatusCheck (ascii ''t1'') (ascii ''key''))]
   \<and> inflight (run (upload_events bom_pdf (ascii ''https://gcs/put'') (ascii ''key'')
       (ascii ''bom.pdf'') (ascii ''t1'') @ [FileSelect (Some bom_pdf)]) init)
       = [UploadDocument bom_pdf]
   \<and> intervals (run second_upload init)
       = [(1, StatusCheck (ascii ''t1'') (ascii ''key'')),
          (2, StatusCheck (ascii ''t3'') (ascii ''key2''))]
   \<and> inflight (run (second_upload @ [Tick 1, Tick 2]) init)
       = [GetTaskStatus (ascii ''t1'') (ascii ''key''),
          GetTaskStatus (ascii ''t3'') (ascii ''key2'')]"
  by (simp add: second_upload_def upload_events_def run_append bom_pdf_def init_def
      handler_defs)

text \<open>
  C4, amended. Starting a new upload session cancels none of the poll intervals of a
  prior session: when the first remote call of the new session is issued, the active
  intervals and the three refs are as they were.
\<close>

theorem new_upload_cancels_nothing:
  assumes "file_type file = application_pdf"
  shows "intervals (step (FileSelect (Some file)) s) = intervals s
       \<and> statusCheckInterval (step (FileSelect (Some file)) s) = statusCheckInterval s
       \<and> operationCheckInterval (step (FileSelect (Some file)) s) = operationCheckInterval s
       \<and> convertCheckInterval (step (FileSelect (Some file)) s) = convertCheckInterval s
       \<and> inflight (step (FileSelect (Some file)) s) = inflight s @ [UploadDocument file]
       \<and> stage (uploadStatus (step (FileSelect (Some file)) s)) = Uploading"
  using assms by (simp add: handleFileSelect_def handleFileUpload_def await_def updateStatus_def)

text \<open>A second file selected while the first status check is in flight.\<close>

theorem new_upload_cancels_nothing_witness:
  "file_type bom_pdf = application_pdf
   \<and> intervals (run to_status_check init) = [(1, StatusCheck (ascii ''t1'') (ascii ''key''))]
   \<and> intervals (step (FileSelect (Some bom_pdf)) (run to_status_check init))
       = [(1, StatusCheck (ascii ''t1'') (ascii ''key''))]
   \<and> statusCheckInterval (step (FileSelect (Some bom_pdf)) (run to_status_check init)) = Some 1
   \<and> inflight (step (FileSelect (Some bom_pdf)) (run to_status_check init))
       = [GetTaskStatus (ascii ''t1'') (ascii ''key''), UploadDocument bom_pdf]
   \<and> stage (uploadStatus (step (FileSelect (Some bom_pdf)) (run to_status_check init)))
       = Uploading"
proof -
  have h: "file_type bom_pdf = application_pdf"
    by (simp add: bom_pdf_def)
  show ?thesis
    using h new_upload_cancels_nothing[OF h, of "run to_status_check init"]
    by (simp add: run_to_status_check del: step.simps)
qed

subsection \<open>Terminal stages\<close>





subsection \<open>The initial task poll\<close>

text \<open>
  As stated, C7 fails. The stage type has no value for awaiting the operation. While
  the initial task poll observes PENDING, PENDING, SUCCESS the stage is processing after
  every event: it never leaves processing.
\<close>

theorem success_keeps_processing_stage:
  "stage (uploadStatus (run (upload_events bom_pdf (ascii ''https://gcs/put'') (ascii ''key'')
       (ascii ''bom.pdf'') (ascii ''t1'')) init)) = Processing
   \<and> map stage (status_trace (pending_pending_success PENDING PENDING)
        (run (upload_events bom_pdf (ascii ''https://gcs/put'') (ascii ''key'')
           (ascii ''bom.pdf'') (ascii ''t1'')) init))
       = [Processing, Processing, Processing, Processing, Processing, Processing]"
  by (simp add: pending_pending_success_def upload_events_def bom_pdf_def init_def handler_defs
      status_literals)

lemma stage_values: "(UNIV :: stage set) = {Idle, Uploading, Processing, Converting, Completed, Error}"
proof -
  have "st \<in> {Idle, Uploading, Processing, Converting, Completed, Error}" for st
    by (cases st) simp_all
  then show ?thesis by blast
qed

text \<open>
  C7, amended. When the initial task poll observes two pending statuses and then
  SUCCESS, the stage stays processing throughout; the success shows as exactly one
  status update, to progress 70 with the message of line 132, after which the status
  interval is no longer active and exactly one fetch of the task result is in flight.
  The stage values are the six of the union type, and none of them is a stage of
  awaiting the operation.
\<close>

theorem pending_pending_success_trace:
  assumes "file_type file = application_pdf" and "pending_status p1" and "pending_status p2"
  shows "status_trace (pending_pending_success p1 p2)
           (run (upload_events file signed_url file_key fname task_id) init)
         = [\<lparr>stage = Processing, message = msg_task_started, progress = 60, error = None\<rparr>,
            \<lparr>stage = Processing, message = msg_processing p1, progress = 65, error = None\<rparr>,
            \<lparr>stage = Processing, message = msg_processing p1, progress = 65, error = None\<rparr>,
            \<lparr>stage = Processing, message = msg_processing p2, progress = 65, error = None\<rparr>,
            \<lparr>stage = Processing, message = msg_processing p2, progress = 65, error = None\<rparr>,
            \<lparr>stage = Processing, message = msg_recognised, progress = 70, error = None\<rparr>]
       \<and> intervals (run (pending_pending_success p1 p2)
           (run (upload_events file signed_url file_key fname task_id) init)) = []
       \<and> inflight (run (pending_pending_success p1 p2)
           (run (upload_events file signed_url file_key fname task_id) init))
           = [GetTaskResult task_id file_key]
       \<and> (UNIV :: stage set) = {Idle, Uploading, Processing, Converting, Completed, Error}"
  using assms
  by (simp add: run_upload_events pending_pending_success_def pending_status_def handler_defs
      stage_values)

text \<open>The poll of a session that observes PENDING twice.\<close>

theorem pending_pending_success_trace_witness:
  "file_type bom_pdf = application_pdf \<and> pending_status PENDING
   \<and> map progress (status_trace (pending_pending_success PENDING PENDING)
        (run (upload_events bom_pdf (ascii ''https://gcs/put'') (ascii ''key'')
           (ascii ''bom.pdf'') (ascii ''t1'')) init))
       = [60, 65, 65, 65, 65, 70]
   \<and> intervals (run (pending_pending_success PENDING PENDING)
        (run (upload_events bom_pdf (ascii ''https://gcs/put'') (ascii ''key'')
           (ascii ''bom.pdf'') (ascii ''t1'')) init)) = []
   \<and> inflight (run (pending_pending_success PENDING PENDING)
        (run (upload_events bom_pdf (ascii ''https://gcs/put'') (ascii ''key'')
           (ascii ''bom.pdf'') (ascii ''t1'')) init))
       = [GetTaskResult (ascii ''t1'') (ascii ''key'')]"
proof -
  have h: "file_type bom_pdf = application_pdf" "pending_status PENDING" "pending_status PENDING"
    by (simp_all add: bom_pdf_def status_literals)
  show ?thesis
    using h(1,2) pending_pending_success_trace[OF h, of "ascii ''https://gcs/put''"
        "ascii ''key''" "ascii ''bom.pdf''" "ascii ''t1''"]
    by simp
qed

subsection \<open>What a step writes\<close>

text \<open>
  A step leaves the upload status as it is, or writes one of the checkpoints, or is a
  reset and writes the idle status.
\<close>

lemma resume_writes:
  "uploadStatus (resume r out s) = uploadStatus s
   \<or> (stage (uploadStatus (resume r out s)), progress (uploadStatus (resume r out s)))
       \<in> checkpoints"
proof (cases out)
  case (Rejected m)
  then show ?thesis
    by (cases r)
       (simp_all add: checkpoints_def handleFileUpload_catch_def statusCheck_catch_def
          operationCheck_catch_def updateStatus_def clearIntervals_fields clearInterval_def)
next
  case (Resolved x)
  then show ?thesis
    by (cases r; cases x)
       (simp_all add: checkpoints_def handleFileUpload_catch_def statusCheck_catch_def
          operationCheck_catch_def updateStatus_def clearIntervals_fields clearInterval_def
          await_def setInterval_def split: option.splits)
qed

lemma step_writes:
  "uploadStatus (step e s) = uploadStatus s
   \<or> (stage (uploadStatus (step e s)), progress (uploadStatus (step e s))) \<in> checkpoints
   \<or> (e = ClickReset
       \<and> uploadStatus (step e s) = \<lparr>stage = Idle, message = [], progress = 0, error = None\<rparr>)"
proof (cases e)
  case (FileSelect f)
  then show ?thesis
    by (simp add: checkpoints_def handleFileSelect_def handleFileUpload_def await_def
        updateStatus_def split: option.splits)
next
  case (Tick h)
  then show ?thesis
    by (simp add: fire_fields split: option.splits)
next
  case (Settle i out)
  then show ?thesis
    using resume_writes[of "inflight s ! i" out "s\<lparr>inflight := drop_nth i (inflight s)\<rparr>"]
    by auto
next
  case ClickDownload
  then show ?thesis
    by (simp add: checkpoints_def handleDownload_def await_def updateStatus_def)
next
  case ClickReset
  then show ?thesis
    by (simp add: resetUpload_fields)
qed

lemma progress_range_step:
  assumes "0 \<le> progress (uploadStatus s) \<and> progress (uploadStatus s) \<le> 100"
  shows "0 \<le> progress (uploadStatus (step e s)) \<and> progress (uploadStatus (step e s)) \<le> 100"
  using assms step_writes[of e s] by (auto simp: checkpoints_def)

lemma progress_range_run:
  assumes "0 \<le> progress (uploadStatus s) \<and> progress (uploadStatus s) \<le> 100"
  shows "0 \<le> progress (uploadStatus (run es s)) \<and> progress (uploadStatus (run es s)) \<le> 100"
  using assms
proof (induction es arbitrary: s)
  case Nil
  then show ?case by simp
next
  case (Cons e es)
  then show ?case
    using progress_range_step[of s e] by simp
qed

lemma progress_zero_step:
  assumes "progress (uploadStatus (step e s)) = 0" and "progress (uploadStatus s) \<noteq> 0"
  shows "e = ClickReset \<or> stage (uploadStatus (step e s)) = Error"
  using assms step_writes[of e s] by (auto simp: checkpoints_def)

subsection \<open>The invariant of sequential runs\<close>

text \<open>
  Every allowed step keeps a sequential state sequential, and raises the progress
  unless it is a reset or ends in the error stage.
\<close>

lemma download_request_facts:
  assumes "download_request r"
  shows "progress_bound r = 100" and "belongs r cb" and "\<exists>url. r = DownloadDocument url"
  using assms by (cases r; simp)+

lemma drop_nth_set: "set (drop_nth i xs) \<subseteq> set xs"
  by (auto simp: drop_nth_def dest: in_set_takeD in_set_dropD)

lemma list_all_drop_nth: "list_all P xs \<Longrightarrow> list_all P (drop_nth i xs)"
  using drop_nth_set[of i xs] by (auto simp: list_all_iff)

lemma filter_drop_nth:
  assumes "i < length xs"
  shows "length (filter P xs)
         = length (filter P (drop_nth i xs)) + (if P (xs ! i) then 1 else 0)"
proof -
  have "xs = take i xs @ xs ! i # drop (Suc i) xs"
    using assms by (simp add: id_take_nth_drop)
  then have "filter P xs = filter P (take i xs) @ filter P [xs ! i] @ filter P (drop (Suc i) xs)"
    by (metis append_Cons append_Nil filter_append)
  then show ?thesis
    by (simp add: drop_nth_def)
qed

lemma others_are_downloads:
  assumes "i < length xs" and "\<not> download_request (xs ! i)"
    and "length (filter (\<lambda>r. \<not> download_request r) xs) \<le> 1"
  shows "list_all download_request (drop_nth i xs)"
proof -
  have "length (filter (\<lambda>r. \<not> download_request r) (drop_nth i xs)) = 0"
    using assms filter_drop_nth[OF assms(1), of "\<lambda>r. \<not> download_request r"] by simp
  then show ?thesis
    by (simp add: list_all_iff filter_empty_conv)
qed

lemma fewer_after_drop:
  assumes "i < length xs" and "length (filter P xs) \<le> 1"
  shows "length (filter P (drop_nth i xs)) \<le> 1"
  using assms filter_drop_nth[OF assms(1), of P] by (simp split: if_splits)

lemma sequential_stateD:
  assumes "sequential_state s"
  shows "0 \<le> progress (uploadStatus s)" and "progress (uploadStatus s) \<le> 100"
    and "stage (uploadStatus s) = Idle \<or> stage (uploadStatus s) = Error
           \<Longrightarrow> progress (uploadStatus s) = 0"
    and "\<And>r. r \<in> set (inflight s) \<Longrightarrow> progress (uploadStatus s) \<le> progress_bound r"
    and "\<And>h cb. (h, cb) \<in> set (intervals s) \<Longrightarrow> progress (uploadStatus s) \<le> interval_bound cb"
    and "\<And>h cb. (h, cb) \<in> set (intervals s) \<Longrightarrow> held s h cb"
    and "length (filter (\<lambda>r. \<not> download_request r) (inflight s)) \<le> 1"
    and "length (intervals s) \<le> 1"
    and "\<And>r h cb. r \<in> set (inflight s) \<Longrightarrow> (h, cb) \<in> set (intervals s) \<Longrightarrow> belongs r cb"
  using assms unfolding sequential_state_def list_all_iff by blast+

lemma sequential_state_init: "sequential_state init"
  by (simp add: sequential_state_def init_def)

lemma downloads_fit:
  assumes "list_all download_request xs"
  shows "p \<le> 100 \<Longrightarrow> list_all (\<lambda>r. p \<le> progress_bound r) xs"
    and "list_all (\<lambda>r. list_all (\<lambda>(h, cb). belongs r cb) ys) xs"
    and "filter (\<lambda>r. \<not> download_request r) xs = []"
    and "list_all (\<lambda>r. belongs r cb) xs"
  using assms by (auto simp: list_all_iff download_request_facts)

lemma list_all_True: "list_all (\<lambda>x. True) xs"
  by (simp add: list_all_iff)

lemma settle_pipeline_call:
  assumes "\<not> download_request r" and "answers r out"
    and "list_all download_request (inflight s)"
    and "progress (uploadStatus s) \<le> progress_bound r" and "0 \<le> progress (uploadStatus s)"
    and "stage (uploadStatus s) = Idle \<or> stage (uploadStatus s) = Error
           \<longrightarrow> progress (uploadStatus s) = 0"
    and "intervals s = []
         \<or> (\<exists>h cb. intervals s = [(h, cb)] \<and> belongs r cb \<and> held s h cb
                \<and> progress (uploadStatus s) \<le> interval_bound cb)"
  shows "sequential_state (resume r out s)"
proof (cases out)
  case (Rejected m)
  from assms(7) show ?thesis
  proof (elim disjE exE conjE)
    assume "intervals s = []"
    then show ?thesis
      using assms(1-6) Rejected
      by (cases r)
         (simp_all add: sequential_state_def handleFileUpload_catch_def statusCheck_catch_def
            operationCheck_catch_def updateStatus_def clearIntervals_fields clearInterval_def
            downloads_fit list_all_True)
  next
    fix h cb
    assume "intervals s = [(h, cb)]" "belongs r cb" "held s h cb"
      "progress (uploadStatus s) \<le> interval_bound cb"
    then show ?thesis
      using assms(1-6) Rejected
      by (cases r; cases cb)
         (simp_all add: sequential_state_def handleFileUpload_catch_def statusCheck_catch_def
            operationCheck_catch_def updateStatus_def clearIntervals_fields clearInterval_def
            downloads_fit list_all_True)
  qed
next
  case (Resolved x)
  from assms(7) show ?thesis
  proof (elim disjE exE conjE)
    assume "intervals s = []"
    then show ?thesis
      using assms(1-6) Resolved
      by (cases r; cases x)
         (simp_all add: sequential_state_def handleFileUpload_catch_def statusCheck_catch_def
            operationCheck_catch_def updateStatus_def clearIntervals_fields clearInterval_def
            await_def setInterval_def downloads_fit list_all_True split: option.splits)
  next
    fix h cb
    assume "intervals s = [(h, cb)]" "belongs r cb" "held s h cb"
      "progress (uploadStatus s) \<le> interval_bound cb"
    then show ?thesis
      using assms(1-6) Resolved
      by (cases r; cases cb; cases x)
         (simp_all add: sequential_state_def handleFileUpload_catch_def statusCheck_catch_def
            operationCheck_catch_def updateStatus_def clearIntervals_fields clearInterval_def
            await_def setInterval_def downloads_fit list_all_True split: option.splits)
  qed
qed

lemma sequential_state_drop:
  assumes "sequential_state s" and "i < length (inflight s)"
  shows "sequential_state (s\<lparr>inflight := drop_nth i (inflight s)\<rparr>)"
  using assms fewer_after_drop[of i "inflight s" "\<lambda>r. \<not> download_request r"]
  by (simp add: sequential_state_def list_all_drop_nth held_updates)

lemma sequential_state_error:
  assumes "sequential_state s"
  shows "sequential_state (updateStatus Error m 0 e s)"
  using assms by (auto simp: sequential_state_def updateStatus_def list_all_iff held_updates)

lemma settle_download_call:
  assumes "sequential_state s" and "download_request r"
  shows "sequential_state (resume r out s)"
proof -
  obtain url where "r = DownloadDocument url"
    using assms(2) download_request_facts(3) by blast
  then show ?thesis
    using assms(1) by (cases out) (simp_all add: sequential_state_error)
qed

lemma sequential_state_settle:
  assumes "sequential_state s"
  shows "sequential_state (step (Settle i out) s)"
proof (cases "i < length (inflight s) \<and> answers (inflight s ! i) out")
  case False
  then show ?thesis
    using assms by auto
next
  case True
  define r where "r = inflight s ! i"
  define s0 where "s0 = s\<lparr>inflight := drop_nth i (inflight s)\<rparr>"
  have mem: "r \<in> set (inflight s)"
    using True by (simp add: r_def)
  have s0: "sequential_state s0"
    unfolding s0_def using assms True by (intro sequential_state_drop) simp_all
  have step: "step (Settle i out) s = resume r out s0"
    using True by (simp add: r_def s0_def)
  show ?thesis
  proof (cases "download_request r")
    case True
    then show ?thesis
      unfolding step using s0 by (intro settle_download_call)
  next
    case False
    have "list_all download_request (inflight s0)"
      using others_are_downloads[of i "inflight s"] True False sequential_stateD(7)[OF assms]
      by (simp add: s0_def r_def)
    moreover have "progress (uploadStatus s0) \<le> progress_bound r"
      using sequential_stateD(4)[OF assms mem] by (simp add: s0_def)
    moreover have "0 \<le> progress (uploadStatus s0)"
      and "stage (uploadStatus s0) = Idle \<or> stage (uploadStatus s0) = Error
           \<longrightarrow> progress (uploadStatus s0) = 0"
      using sequential_stateD(1,3)[OF assms] by (simp_all add: s0_def)
    moreover have "intervals s0 = []
         \<or> (\<exists>h cb. intervals s0 = [(h, cb)] \<and> belongs r cb \<and> held s0 h cb
                \<and> progress (uploadStatus s0) \<le> interval_bound cb)"
    proof (cases "intervals s")
      case Nil
      then show ?thesis by (simp add: s0_def)
    next
      case (Cons hc rest)
      then have one: "intervals s = [hc]"
        using sequential_stateD(8)[OF assms] by simp
      obtain h cb where hc: "hc = (h, cb)"
        by (cases hc)
      have "belongs r cb" "held s h cb" "progress (uploadStatus s) \<le> interval_bound cb"
        using sequential_stateD(9)[OF assms mem, of h cb] sequential_stateD(5,6)[OF assms, of h cb]
          one hc by simp_all
      moreover have "held s0 h cb = held s h cb"
        by (simp add: s0_def held_updates)
      ultimately show ?thesis
        using one hc by (simp add: s0_def)
    qed
    ultimately show ?thesis
      unfolding step using False True
      by (intro settle_pipeline_call) (simp_all add: r_def)
  qed
qed

lemma sequential_state_tick:
  assumes "sequential_state s" and "inflight s = []"
  shows "sequential_state (step (Tick h) s)"
proof (cases "map_of (intervals s) h")
  case None
  then show ?thesis
    using assms by simp
next
  case (Some cb)
  then have mem: "(h, cb) \<in> set (intervals s)"
    by (rule map_of_SomeD)
  then have one: "intervals s = [(h, cb)]"
    using sequential_stateD(8)[OF assms(1)] by (cases "intervals s") auto
  show ?thesis
    using assms sequential_stateD(5,6)[OF assms(1) mem] Some one
    by (cases cb) (simp_all add: sequential_state_def await_def held_updates)
qed

lemma sequential_state_file_select:
  assumes "sequential_state s" and "allowed (FileSelect f) s"
  shows "sequential_state (step (FileSelect f) s)"
  using assms
  by (auto simp: sequential_state_def handleFileSelect_def handleFileUpload_def await_def
      updateStatus_def split: option.splits)

lemma sequential_state_download:
  assumes "sequential_state s"
  shows "sequential_state (step ClickDownload s)"
  using assms
  by (auto simp: sequential_state_def handleDownload_def await_def updateStatus_def
      list_all_iff held_updates)

lemma held_is_cleared:
  assumes "held s h cb"
  shows "\<not> (Some h \<noteq> statusCheckInterval s \<and> Some h \<noteq> operationCheckInterval s
            \<and> Some h \<noteq> convertCheckInterval s)"
  using assms by (cases cb) simp_all

lemma progress_bound_nonneg: "0 \<le> progress_bound r"
  by (cases r) simp_all

lemma sequential_state_reset:
  assumes "sequential_state s"
  shows "sequential_state (step ClickReset s)"
proof -
  have "\<not> (Some h \<noteq> statusCheckInterval s \<and> Some h \<noteq> operationCheckInterval s
            \<and> Some h \<noteq> convertCheckInterval s)" if "(h, cb) \<in> set (intervals s)" for h cb
    using sequential_stateD(6)[OF assms that] by (rule held_is_cleared)
  then have "intervals (resetUpload s) = []"
    by (auto simp: resetUpload_fields filter_empty_conv)
  then show ?thesis
    using sequential_stateD(7)[OF assms]
    by (simp add: sequential_state_def resetUpload_fields list_all_iff progress_bound_nonneg)
qed

lemma sequential_state_step:
  assumes "sequential_state s" and "allowed e s"
  shows "sequential_state (step e s)"
proof (cases e)
  case (FileSelect f)
  then show ?thesis
    using assms by (simp only: sequential_state_file_select)
next
  case (Tick h)
  then show ?thesis
    using assms by (simp only: allowed.simps sequential_state_tick)
next
  case (Settle i out)
  then show ?thesis
    using assms by (simp only: sequential_state_settle)
next
  case ClickDownload
  then show ?thesis
    using assms by (simp only: sequential_state_download)
next
  case ClickReset
  then show ?thesis
    using assms by (simp only: sequential_state_reset)
qed

lemma sequential_state_run:
  assumes "sequential_state s" and "sequential es s"
  shows "sequential_state (run es s)"
  using assms by (induction es arbitrary: s) (simp_all add: sequential_state_step)

lemma sequential_append:
  "sequential (es @ fs) s = (sequential es s \<and> sequential fs (run es s))"
  by (induction es arbitrary: s) auto

lemma resume_raises:
  assumes "progress (uploadStatus s) \<le> progress_bound r"
    and "stage (uploadStatus (resume r out s)) \<noteq> Error"
  shows "progress (uploadStatus s) \<le> progress (uploadStatus (resume r out s))"
proof (cases out)
  case (Rejected m)
  then show ?thesis
    using assms
    by (cases r)
       (simp_all add: handleFileUpload_catch_def statusCheck_catch_def
          operationCheck_catch_def updateStatus_def clearIntervals_fields)
next
  case (Resolved x)
  then show ?thesis
    using assms
    by (cases r; cases x)
       (simp_all add: handleFileUpload_catch_def statusCheck_catch_def
          operationCheck_catch_def updateStatus_def clearIntervals_fields clearInterval_def
          await_def setInterval_def split: option.splits if_splits)
qed

lemma sequential_step_raises:
  assumes "sequential_state s" and "allowed e s"
    and "stage (uploadStatus (step e s)) \<noteq> Error" and "e \<noteq> ClickReset"
  shows "progress (uploadStatus s) \<le> progress (uploadStatus (step e s))"
proof (cases e)
  case (FileSelect f)
  then show ?thesis
    using assms sequential_stateD(3)[OF assms(1)]
    by (auto simp: handleFileSelect_def handleFileUpload_def await_def updateStatus_def
        split: option.splits if_splits)
next
  case (Tick h)
  then show ?thesis
    by (simp add: fire_fields split: option.splits)
next
  case (Settle i out)
  show ?thesis
  proof (cases "i < length (inflight s) \<and> answers (inflight s ! i) out")
    case False
    then show ?thesis
      using Settle by auto
  next
    case True
    then have "progress (uploadStatus s) \<le> progress_bound (inflight s ! i)"
      using sequential_stateD(4)[OF assms(1), of "inflight s ! i"] by simp
    then show ?thesis
      using True Settle assms(3)
        resume_raises[of "s\<lparr>inflight := drop_nth i (inflight s)\<rparr>" "inflight s ! i" out]
      by simp
  qed
next
  case ClickDownload
  then show ?thesis
    using assms(3) by (auto simp: handleDownload_def await_def updateStatus_def split: if_splits)
next
  case ClickReset
  then show ?thesis
    using assms(4) by simp
qed

subsection \<open>Progress\<close>

text \<open>
  As stated, C6 fails. The status interval fires twice before the first response
  arrives. The first check observes SUCCESS and the progress is 70; the second observes
  PENDING and the progress falls back to 65, the stage being processing before and
  after.
\<close>

theorem late_pending_lowers_progress:
  "map stage (status_trace overlapping_pending init)
     = [Uploading, Uploading, Processing, Processing, Processing, Processing, Processing,
        Processing]
   \<and> map progress (status_trace overlapping_pending init) = [10, 30, 50, 60, 60, 60, 70, 65]"
  by (simp add: overlapping_pending_def to_status_check_def upload_events_def bom_pdf_def
      init_def handler_defs status_literals)

text \<open>
  C6, amended. In every run from the initial state the progress is an integer between 0
  and 100, and it returns to 0 from another value only by a reset or on entering the
  error stage. In a sequential run it is non-decreasing across every event that is not
  a reset and does not end in the error stage.
\<close>

theorem progress_of_runs:
  "0 \<le> progress (uploadStatus (run es init)) \<and> progress (uploadStatus (run es init)) \<le> 100
   \<and> (progress (uploadStatus (run (es @ [e]) init)) = 0
        \<and> progress (uploadStatus (run es init)) \<noteq> 0
      \<longrightarrow> e = ClickReset \<or> stage (uploadStatus (run (es @ [e]) init)) = Error)
   \<and> (sequential (es @ [e]) init \<and> stage (uploadStatus (run (es @ [e]) init)) \<noteq> Error
        \<and> e \<noteq> ClickReset
      \<longrightarrow> progress (uploadStatus (run es init))
            \<le> progress (uploadStatus (run (es @ [e]) init)))"
proof -
  have range: "0 \<le> progress (uploadStatus (run es init))
      \<and> progress (uploadStatus (run es init)) \<le> 100"
    by (rule progress_range_run) (simp add: init_def)
  have last: "run (es @ [e]) init = step e (run es init)"
    by (simp add: run_append)
  have zero: "e = ClickReset \<or> stage (uploadStatus (run (es @ [e]) init)) = Error"
    if "progress (uploadStatus (run (es @ [e]) init)) = 0"
      and "progress (uploadStatus (run es init)) \<noteq> 0"
    using that unfolding last by (rule progress_zero_step)
  have mono: "progress (uploadStatus (run es init))
        \<le> progress (uploadStatus (run (es @ [e]) init))"
    if "sequential (es @ [e]) init"
      and "stage (uploadStatus (run (es @ [e]) init)) \<noteq> Error" and "e \<noteq> ClickReset"
  proof -
    have "sequential es init" and "allowed e (run es init)"
      using that(1) by (simp_all add: sequential_append)
    then have "sequential_state (run es init)"
      using sequential_state_init by (intro sequential_state_run)
    then show ?thesis
      using \<open>allowed e (run es init)\<close> that(2,3) unfolding last
      by (rule sequential_step_raises)
  qed
  show ?thesis
    using range zero mono by blast
qed

text \<open>
  The session up to the first convert check, whose SUCCESS raises the progress from 85
  to 100, and the reset that returns it to 0.
\<close>

theorem progress_of_runs_witness:
  "sequential (to_convert_check @ [Settle 0 (Resolved (TaskStatusResponse SUCCESS))]) init
   \<and> stage (uploadStatus (run (to_convert_check
         @ [Settle 0 (Resolved (TaskStatusResponse SUCCESS))]) init)) = Completed
   \<and> progress (uploadStatus (run to_convert_check init)) = 85
   \<and> progress (uploadStatus (run to_convert_check init))
       \<le> progress (uploadStatus (run (to_convert_check
             @ [Settle 0 (Resolved (TaskStatusResponse SUCCESS))]) init))
   \<and> progress (uploadStatus (run (to_convert_check
         @ [Settle 0 (Resolved (TaskStatusResponse SUCCESS))]) init)) \<le> 100
   \<and> progress (uploadStatus (run (to_convert_check @ [ClickReset]) init)) = 0"
proof -
  have seq: "sequential (to_convert_check @ [Settle 0 (Resolved (TaskStatusResponse SUCCESS))])
      init"
    by (simp add: to_convert_check_def upload_events_def recognition_events_def
        operation_events_def bom_pdf_def init_def handler_defs status_literals ascii_def)
  have st: "stage (uploadStatus (run (to_convert_check
         @ [Settle 0 (Resolved (TaskStatusResponse SUCCESS))]) init)) = Completed"
    by (simp add: run_append run_to_convert_check handler_defs)
  have p: "progress (uploadStatus (run to_convert_check init)) = 85"
    by (simp add: run_to_convert_check)
  have z: "progress (uploadStatus (run (to_convert_check @ [ClickReset]) init)) = 0"
    by (simp add: run_append resetUpload_fields)
  note t = progress_of_runs[of "to_convert_check @ [Settle 0 (Resolved (TaskStatusResponse SUCCESS))]"
      ClickReset]
    progress_of_runs[of to_convert_check "Settle 0 (Resolved (TaskStatusResponse SUCCESS))"]
  from t(2) seq st have "progress (uploadStatus (run to_convert_check init))
       \<le> progress (uploadStatus (run (to_convert_check
             @ [Settle 0 (Resolved (TaskStatusResponse SUCCESS))]) init))"
    by simp
  moreover from t(1) have "progress (uploadStatus (run (to_convert_check
         @ [Settle 0 (Resolved (TaskStatusResponse SUCCESS))]) init)) \<le> 100"
    by blast
  ultimately show ?thesis
    using seq st p z by blast
qed

subsection \<open>A failed conversion\<close>






subsection \<open>The happy path\<close>

text \<open>The rounds of a loop that polls alone, and the parts of a session, are sequential.\<close>

lemma sequential_status_polls:
  assumes "inflight s = []" and "map_of (intervals s) h = Some (StatusCheck t k)"
    and "list_all pending_status sts"
  shows "sequential (status_polls h sts) s"
  using assms
proof (induction sts arbitrary: s)
  case Nil
  then show ?case by simp
next
  case (Cons st sts)
  let ?s1 = "updateStatus Processing (msg_processing st) 65 None s"
  have round: "step (Settle 0 (Resolved (TaskStatusResponse st))) (step (Tick h) s) = ?s1"
    by (rule status_poll_round) (use Cons.prems in simp_all)
  have "sequential (status_polls h sts) ?s1"
    using Cons.prems by (intro Cons.IH) (simp_all add: updateStatus_fields)
  then show ?case
    using round Cons.prems(1) by simp
qed

lemma sequential_convert_polls:
  assumes "inflight s = []" and "map_of (intervals s) h = Some (ConvertCheck c)"
    and "list_all pending_status sts"
  shows "sequential (status_polls h sts) s"
  using assms
proof (induction sts arbitrary: s)
  case Nil
  then show ?case by simp
next
  case (Cons st sts)
  let ?s1 = "updateStatus Converting (msg_converting st) 90 None s"
  have round: "step (Settle 0 (Resolved (TaskStatusResponse st))) (step (Tick h) s) = ?s1"
    by (rule convert_poll_round) (use Cons.prems in simp_all)
  have "sequential (status_polls h sts) ?s1"
    using Cons.prems by (intro Cons.IH) (simp_all add: updateStatus_fields)
  then show ?case
    using round Cons.prems(1) by simp
qed

lemma sequential_operation_polls:
  assumes "inflight s = []" and "map_of (intervals s) h = Some (OperationCheck n k)"
  shows "sequential (operation_polls h m) s"
  using assms
proof (induction m arbitrary: s)
  case 0
  then show ?case by simp
next
  case (Suc m)
  let ?s1 = "updateStatus Processing msg_operation_pending 75 None s"
  have round: "step (Settle 0 (Resolved (OperationResponse False))) (step (Tick h) s) = ?s1"
    by (rule operation_poll_round) (use Suc.prems in simp_all)
  have "sequential (operation_polls h m) ?s1"
    using Suc.prems by (intro Suc.IH) (simp_all add: updateStatus_fields)
  then show ?case
    using round Suc.prems(1) by simp
qed

lemma sequential_upload_events:
  assumes "file_type file = application_pdf"
  shows "sequential (upload_events file signed_url file_key fname task_id) init"
  using assms by (simp add: upload_events_def init_def handler_defs)

lemma sequential_recognition_events:
  assumes "list_all pending_status sts"
    and "inflight s = []" and "intervals s = [(1, StatusCheck task_id file_key)]"
  shows "sequential (recognition_events sts operationName) s"
proof -
  have "run (status_polls 1 sts) s
        = (if sts = [] then s else updateStatus Processing (msg_processing (last sts)) 65 None s)"
    using assms by (intro run_status_polls[where t = task_id and k = file_key]) simp_all
  moreover have "sequential (status_polls 1 sts) s"
    using assms by (intro sequential_status_polls[where t = task_id and k = file_key]) simp_all
  ultimately show ?thesis
    using assms(2) by (simp add: recognition_events_def sequential_append updateStatus_def)
qed

lemma sequential_operation_events:
  assumes "inflight s = []" and "intervals s = [(2, OperationCheck operationName file_key)]"
  shows "sequential (operation_events n convertTaskId) s"
proof -
  have "run (operation_polls 2 n) s
        = (if n = 0 then s else updateStatus Processing msg_operation_pending 75 None s)"
    using assms
    by (intro run_operation_polls[where n = operationName and k = file_key]) simp_all
  moreover have "sequential (operation_polls 2 n) s"
    using assms
    by (intro sequential_operation_polls[where n = operationName and k = file_key]) simp_all
  ultimately show ?thesis
    using assms(1) by (simp add: operation_events_def sequential_append updateStatus_def)
qed

lemma sequential_conversion_events:
  assumes "list_all pending_status sts"
    and "inflight s = []" and "intervals s = [(3, ConvertCheck convertTaskId)]"
  shows "sequential (conversion_events sts path) s"
proof -
  have "run (status_polls 3 sts) s
        = (if sts = [] then s
           else updateStatus Converting (msg_converting (last sts)) 90 None s)"
    using assms by (intro run_convert_polls[where c = convertTaskId]) simp_all
  moreover have "sequential (status_polls 3 sts) s"
    using assms by (intro sequential_convert_polls[where c = convertTaskId]) simp_all
  ultimately show ?thesis
    using assms(2) by (simp add: conversion_events_def sequential_append updateStatus_def)
qed

text \<open>
  As stated, C9 fails. Every step of the happy path succeeds, but the convert interval
  fires a second time while its first check is in flight. The first check observes
  SUCCESS and the result carries X; the response to the second, a pending status sent
  earlier, arrives last: the session ends in the converting stage at progress 90, with
  the download URL X.
\<close>

theorem overlapping_convert_check_ends_converting:
  "uploadStatus (run overlapping_convert init)
     = \<lparr>stage = Converting, message = msg_converting PENDING, progress = 90, error = None\<rparr>
   \<and> downloadUrl (run overlapping_convert init) = ascii ''X''
   \<and> intervals (run overlapping_convert init) = []
   \<and> inflight (run overlapping_convert init) = []"
  by (simp add: overlapping_convert_def run_append run_to_convert_check handler_defs
      status_literals ascii_def)

text \<open>
  C9, amended. On the full happy path in a sequential run (the upload target is issued,
  the transfer of the bytes succeeds, the initial task reaches SUCCESS after any number
  of pending polls and its result carries an operation name, the operation reports done
  after any number of polls, the convert task reaches SUCCESS after any number of
  pending polls and its result carries the download path X, and every response arrives
  before an interval fires again) the session ends in stage completed with progress 100
  and the download URL equal to X, with no interval active and no call in flight.
\<close>

theorem happy_path_completes:
  assumes "file_type file = application_pdf" and "operationName \<noteq> []"
    and "list_all pending_status sts1" and "list_all pending_status sts3"
  shows "sequential (happy_path file signed_url file_key fname task_id sts1 operationName n
            convertTaskId sts3 X) init
       \<and> run (happy_path file signed_url file_key fname task_id sts1 operationName n
            convertTaskId sts3 X) init
         = \<lparr>uploadStatus = \<lparr>stage = Completed, message = msg_convert_done, progress = 100,
                             error = None\<rparr>,
            downloadUrl = X, showDownload = (X \<noteq> []),
            statusCheckInterval = Some 1, operationCheckInterval = Some 2,
            convertCheckInterval = Some 3,
            intervals = [], next_handle = 4, inflight = []\<rparr>"
proof -
  define a where "a = run (upload_events file signed_url file_key fname task_id) init"
  define b where "b = run (recognition_events sts1 operationName) a"
  define c where "c = run (operation_events n convertTaskId) b"
  define d where "d = run (conversion_events sts3 (Some X)) c"
  have a_eq: "a = \<lparr>uploadStatus = \<lparr>stage = Processing, message = msg_task_started,
                                   progress = 60, error = None\<rparr>,
            downloadUrl = [], showDownload = False,
            statusCheckInterval = Some 1, operationCheckInterval = None,
            convertCheckInterval = None,
            intervals = [(1, StatusCheck task_id file_key)], next_handle = 2, inflight = []\<rparr>"
    unfolding a_def by (rule run_upload_events[OF assms(1)])
  have a: "inflight a = []" "intervals a = [(1, StatusCheck task_id file_key)]"
    "statusCheckInterval a = Some 1" "next_handle a = 2"
    by (simp_all add: a_eq)
  have b_eq: "b = a\<lparr>uploadStatus := \<lparr>stage = Processing, message = msg_recognised,
                                    progress = 70, error = None\<rparr>,
                  operationCheckInterval := Some 2,
                  intervals := [(2, OperationCheck operationName file_key)],
                  next_handle := 3\<rparr>"
    unfolding b_def using assms(2,3) a by (intro run_recognition_events) simp_all
  have b: "inflight b = []" "intervals b = [(2, OperationCheck operationName file_key)]"
    "operationCheckInterval b = Some 2" "next_handle b = 3"
    using a by (simp_all add: b_eq)
  have c_eq: "c = b\<lparr>uploadStatus := \<lparr>stage = Converting, message = msg_convert_started,
                                    progress = 85, error = None\<rparr>,
                  convertCheckInterval := Some 3,
                  intervals := [(3, ConvertCheck convertTaskId)], next_handle := 4\<rparr>"
    unfolding c_def using b by (intro run_operation_events) simp_all
  have c: "inflight c = []" "intervals c = [(3, ConvertCheck convertTaskId)]"
    "convertCheckInterval c = Some 3"
    using b by (simp_all add: c_eq)
  have d_eq: "d = \<lparr>uploadStatus = \<lparr>stage = Completed, message = msg_convert_done,
                                   progress = 100, error = None\<rparr>,
            downloadUrl = X, showDownload = (X \<noteq> []),
            statusCheckInterval = Some 1, operationCheckInterval = Some 2,
            convertCheckInterval = Some 3,
            intervals = [], next_handle = 4, inflight = []\<rparr>"
  proof -
    have "d = (if X = [] then
                 c\<lparr>uploadStatus := \<lparr>stage = Completed, message = msg_convert_done,
                                       progress = 100, error = None\<rparr>,
                   intervals := []\<rparr>
               else
                 c\<lparr>uploadStatus := \<lparr>stage = Completed, message = msg_convert_done,
                                       progress = 100, error = None\<rparr>,
                   downloadUrl := X, showDownload := True, intervals := []\<rparr>)"
      unfolding d_def by (simp add: run_conversion_events[OF assms(4) c(1) c(2) c(3)])
    then show ?thesis
      by (simp add: c_eq b_eq a_eq)
  qed
  have seq: "sequential (upload_events file signed_url file_key fname task_id) init"
    "sequential (recognition_events sts1 operationName) a"
    "sequential (operation_events n convertTaskId) b"
    "sequential (conversion_events sts3 (Some X)) c"
    using assms a b c
    by (simp_all add: sequential_upload_events sequential_recognition_events
        sequential_operation_events sequential_conversion_events)
  have "run (happy_path file signed_url file_key fname task_id sts1 operationName n
            convertTaskId sts3 X) init = d"
    by (simp only: happy_path_def run_append a_def b_def c_def d_def)
  moreover have "sequential (happy_path file signed_url file_key fname task_id sts1
      operationName n convertTaskId sts3 X) init"
    using seq by (simp only: happy_path_def sequential_append run_append a_def b_def c_def)
  ultimately show ?thesis
    using d_eq by simp
qed

text \<open>The happy path with two, three and one pending polls of the three loops.\<close>

theorem happy_path_completes_witness:
  "file_type bom_pdf = application_pdf \<and> ascii ''operations/7'' \<noteq> []
   \<and> list_all pending_status [PENDING, PENDING] \<and> list_all pending_status [PENDING]
   \<and> sequential (happy_path bom_pdf (ascii ''https://gcs/put'') (ascii ''key'')
        (ascii ''bom.pdf'') (ascii ''t1'') [PENDING, PENDING] (ascii ''operations/7'') 3
        (ascii ''t2'') [PENDING] (ascii ''X'')) init
   \<and> run (happy_path bom_pdf (ascii ''https://gcs/put'') (ascii ''key'')
        (ascii ''bom.pdf'') (ascii ''t1'') [PENDING, PENDING] (ascii ''operations/7'') 3
        (ascii ''t2'') [PENDING] (ascii ''X'')) init
     = \<lparr>uploadStatus = \<lparr>stage = Completed, message = msg_convert_done, progress = 100,
                         error = None\<rparr>,
        downloadUrl = ascii ''X'', showDownload = True,
        statusCheckInterval = Some 1, operationCheckInterval = Some 2,
        convertCheckInterval = Some 3,
        intervals = [], next_handle = 4, inflight = []\<rparr>"
proof -
  have h: "file_type bom_pdf = application_pdf" "ascii ''operations/7'' \<noteq> []"
    "list_all pending_status [PENDING, PENDING]" "list_all pending_status [PENDING]"
    by (simp_all add: bom_pdf_def ascii_def status_literals)
  have x: "(ascii ''X'' \<noteq> []) = True"
    by (simp add: ascii_def)
  show ?thesis
    using h happy_path_completes[OF h, of "ascii ''https://gcs/put''" "ascii ''key''"
        "ascii ''bom.pdf''" "ascii ''t1''" 3 "ascii ''t2''" "ascii ''X''"]
    by (simp only: x) simp
qed

end
